theory Spec2Isabelle
  imports Main "HOL-Library.Char_ord" "HOL-Library.List_Lexorder"
begin

section \<open>Python strings\<close>

text \<open>
  A Python \<open>str\<close> is modelled as a \<open>string\<close>, one \<open>char\<close> per code point, and the
  character classes are those of the ASCII range, given by code point:
  \<^item> \<open>str.isspace\<close>, \<open>str.strip()\<close>, \<open>str.split()\<close> and the regular expression class
    \<open>\s\<close> all use the same whitespace test, which on ASCII holds for the code points
    9 to 13, 28 to 31 and 32;
  \<^item> \<open>\d\<close> holds for the digits 0 to 9, \<open>\w\<close> for letters, digits and the underscore;
  \<^item> \<open>str.lower\<close> and \<open>str.upper\<close> move the 26 letters and nothing else.
\<close>

definition is_space :: "char \<Rightarrow> bool" where
  "is_space c \<longleftrightarrow>
     (let n = (of_char c :: nat) in (9 \<le> n \<and> n \<le> 13) \<or> (28 \<le> n \<and> n \<le> 32))"

definition is_digit :: "char \<Rightarrow> bool" where
  "is_digit c \<longleftrightarrow> (let n = (of_char c :: nat) in 48 \<le> n \<and> n \<le> 57)"

definition is_upper :: "char \<Rightarrow> bool" where
  "is_upper c \<longleftrightarrow> (let n = (of_char c :: nat) in 65 \<le> n \<and> n \<le> 90)"

definition is_lower :: "char \<Rightarrow> bool" where
  "is_lower c \<longleftrightarrow> (let n = (of_char c :: nat) in 97 \<le> n \<and> n \<le> 122)"

definition is_word :: "char \<Rightarrow> bool" where
  "is_word c \<longleftrightarrow> is_upper c \<or> is_lower c \<or> is_digit c \<or> c = CHR ''_''"

definition lower_char :: "char \<Rightarrow> char" where
  "lower_char c = (if is_upper c then char_of ((of_char c :: nat) + 32) else c)"

definition upper_char :: "char \<Rightarrow> char" where
  "upper_char c = (if is_lower c then char_of ((of_char c :: nat) - 32) else c)"

definition lower :: "string \<Rightarrow> string" where
  "lower s = map lower_char s"

definition upper :: "string \<Rightarrow> string" where
  "upper s = map upper_char s"

text \<open>\<open>s.strip()\<close>: leading and trailing whitespace removed.\<close>

definition strip :: "string \<Rightarrow> string" where
  "strip s = rev (dropWhile is_space (rev (dropWhile is_space s)))"

text \<open>\<open>s.rstrip()\<close>: trailing whitespace removed.\<close>

definition rstrip :: "string \<Rightarrow> string" where
  "rstrip s = rev (dropWhile is_space (rev s))"

text \<open>\<open>re.sub(r"\s+", rep, s)\<close>: every maximal run of whitespace becomes \<open>rep\<close>.\<close>

function sub_spaces :: "string \<Rightarrow> string \<Rightarrow> string" where
  "sub_spaces rep [] = []"
| "sub_spaces rep (c # cs) =
     (if is_space c then rep @ sub_spaces rep (dropWhile is_space cs)
      else c # sub_spaces rep cs)"
  by pat_completeness auto
termination
  by (relation "measure (\<lambda>(rep, s). length s)")
     (auto simp: length_dropWhile_le less_Suc_eq_le)

text \<open>\<open>sep.join(xs)\<close>.\<close>

fun join :: "string \<Rightarrow> string list \<Rightarrow> string" where
  "join sep [] = []"
| "join sep [x] = x"
| "join sep (x # y # ys) = x @ sep @ join sep (y # ys)"

text \<open>
  \<open>s.split()\<close> without a separator: the maximal runs of characters that are not
  whitespace, in order; never an empty string.
\<close>

function split_ws :: "string \<Rightarrow> string list" where
  "split_ws s =
     (let t = dropWhile is_space s
      in if t = [] then []
         else takeWhile (\<lambda>c. \<not> is_space c) t # split_ws (dropWhile (\<lambda>c. \<not> is_space c) t))"
  by pat_completeness auto
termination
proof (relation "measure length")
  show "wf (measure length)" by simp
next
  fix s t :: string
  assume t: "t = dropWhile is_space s" and ne: "t \<noteq> []"
  from ne obtain c cs where tc: "t = c # cs" by (cases t) simp_all
  from t ne have "\<not> is_space (hd t)" by (simp add: hd_dropWhile)
  with tc have "\<not> is_space c" by simp
  with tc have "length (dropWhile (\<lambda>c. \<not> is_space c) t) \<le> length cs"
    by (simp add: length_dropWhile_le)
  also have "\<dots> < length t" using tc by simp
  also have "\<dots> \<le> length s" using t by (simp add: length_dropWhile_le)
  finally show "(dropWhile (\<lambda>c. \<not> is_space c) t, s) \<in> measure length" by simp
qed

declare split_ws.simps [simp del]

text \<open>
  \<open>s.split(sep)\<close> for a separator of one character: the pieces between the separators,
  empty pieces included; at least one piece.
\<close>

fun split_on :: "char \<Rightarrow> string \<Rightarrow> string list" where
  "split_on sep [] = [[]]"
| "split_on sep (c # cs) =
     (let r = split_on sep cs
      in if c = sep then [] # r else (c # hd r) # tl r)"

text \<open>\<open>s.replace(a, b)\<close> for single characters.\<close>

definition replace_char :: "char \<Rightarrow> char \<Rightarrow> string \<Rightarrow> string" where
  "replace_char a b s = map (\<lambda>c. if c = a then b else c) s"

section \<open>Numeric fields: \<open>parse_int\<close>\<close>

text \<open>
  \<^verbatim>\<open>
  def parse_int(s: str):
      m = re.search(r"-?\d+", s or "")
      return int(m.group(0)) if m else None
  \<close>
  \<open>re.search\<close> returns the leftmost match, and \<open>\d+\<close> is greedy: at each position, from
  the left, a minus sign directly followed by a digit starts a match, else a digit does.
  \<open>int\<close> reads the matched decimal numeral; \<open>None\<close> is the unset value.
\<close>

definition digit_val :: "char \<Rightarrow> nat" where
  "digit_val c = of_char c - 48"

definition int_of_digits :: "string \<Rightarrow> int" where
  "int_of_digits ds = int (foldl (\<lambda>a c. 10 * a + digit_val c) 0 ds)"

fun parse_int :: "string \<Rightarrow> int option" where
  "parse_int [] = None"
| "parse_int (c # cs) =
     (if c = CHR ''-'' \<and> cs \<noteq> [] \<and> is_digit (hd cs)
        then Some (- int_of_digits (takeWhile is_digit cs))
      else if is_digit c
        then Some (int_of_digits (takeWhile is_digit (c # cs)))
      else parse_int cs)"

section \<open>File names: \<open>safe_filename\<close>\<close>

text \<open>
  \<^verbatim>\<open>
  def safe_filename(name: str) -> str:
      s = re.sub(r"[^\w\s\-\(\)\[\]\.]", "", name, flags=re.UNICODE)
      s = re.sub(r"\s+", "_", s.strip())
      return s[:160] if s else "unknown"
  \<close>
\<close>

definition is_punct_kept :: "char \<Rightarrow> bool" where
  "is_punct_kept c \<longleftrightarrow> c \<in> set ''-()[].''"

definition is_kept :: "char \<Rightarrow> bool" where
  "is_kept c \<longleftrightarrow> is_word c \<or> is_space c \<or> is_punct_kept c"

definition safe_filename :: "string \<Rightarrow> string" where
  "safe_filename name =
     (let s = filter is_kept name;
          s = sub_spaces ''_'' (strip s)
      in if s \<noteq> [] then take 160 s else ''unknown'')"

section \<open>Canonical file names: \<open>build_fandom_gif_file\<close>\<close>

text \<open>
  \<^verbatim>\<open>
  def build_fandom_gif_file(name: str) -> str | None:
      if not name:
          return None
      s = " ".join(str(name).strip().split())
      LOWER = {"a", "an", "the", "of", "in", "on", "to", "and", "with", "from"}
      words = s.split(" ")
      out_words = []
      for i, w in enumerate(words):
          segs = w.split("-")
          segs2 = []
          for seg in segs:
              if not seg:
                  segs2.append(seg)
                  continue
              segs2.append(seg[:1].upper() + seg[1:].lower())
          out = "-".join(segs2)
          if i > 0 and out.lower() in LOWER:
              out = out.lower()
          out_words.append(out)
      s2 = " ".join(out_words).replace(" ", "_")
      return f"{s2}.gif"
  \<close>
  \<open>title_seg\<close> is the body of the inner loop, \<open>title_word\<close> the body of the outer one.
\<close>

definition LOWER :: "string list" where
  "LOWER = [''a'', ''an'', ''the'', ''of'', ''in'', ''on'', ''to'', ''and'', ''with'', ''from'']"

definition title_seg :: "string \<Rightarrow> string" where
  "title_seg seg = (if seg = [] then seg else upper (take 1 seg) @ lower (drop 1 seg))"

definition title_word :: "nat \<Rightarrow> string \<Rightarrow> string" where
  "title_word i w =
     (let segs2 = map title_seg (split_on CHR ''-'' w);
          out = join ''-'' segs2
      in if i > 0 \<and> lower out \<in> set LOWER then lower out else out)"

definition build_fandom_gif_file :: "string \<Rightarrow> string option" where
  "build_fandom_gif_file name =
     (if name = [] then None
      else let s = join '' '' (split_ws (strip name));
               words = split_on CHR '' '' s;
               out_words = map (\<lambda>(i, w). title_word i w) (enumerate 0 words);
               s2 = replace_char CHR '' '' CHR ''_'' (join '' '' out_words)
           in Some (s2 @ ''.gif''))"

text \<open>
  The steps of \<open>build_fandom_gif_file\<close> after the whitespace of the name is normalised,
  up to the extension.
\<close>

definition titled :: "string \<Rightarrow> string" where
  "titled s = replace_char CHR '' '' CHR ''_''
     (join '' '' (map (\<lambda>(i, w). title_word i w) (enumerate 0 (split_on CHR '' '' s))))"

section \<open>Parsed documents\<close>

text \<open>
  The tree that the HTML parser hands to the scripts: a text node, or an element with
  its tag name, its attributes and its children. \<open>Gone\<close> stands where an element has
  been destroyed by \<open>decompose()\<close>: it has no text and no descendants, and no search
  finds it. Leaving it in place keeps the positions of its siblings, so that a position
  in the tree names the same object before and after.
\<close>

datatype node = Text string | Elem string "(string \<times> string) list" "node list" | Gone

type_synonym path = "nat list"

fun is_tag :: "string list \<Rightarrow> node \<Rightarrow> bool" where
  "is_tag tags (Elem t a cs) = (t \<in> set tags)"
| "is_tag tags n = False"

text \<open>
  The positions, relative to a node, of its descendants with one of the given tag names,
  in document order: what \<open>find_all\<close> returns, as references into the tree.
\<close>

fun paths_node :: "string list \<Rightarrow> node \<Rightarrow> path list"
  and paths_list :: "string list \<Rightarrow> nat \<Rightarrow> node list \<Rightarrow> path list" where
  "paths_node tags (Elem t a cs) = paths_list tags 0 cs"
| "paths_node tags (Text s) = []"
| "paths_node tags Gone = []"
| "paths_list tags i [] = []"
| "paths_list tags i (c # cs) =
     (if is_tag tags c then [[i]] else []) @ map ((#) i) (paths_node tags c)
     @ paths_list tags (Suc i) cs"

fun node_at :: "node \<Rightarrow> path \<Rightarrow> node" where
  "node_at n [] = n"
| "node_at (Elem t a cs) (i # p) = (if i < length cs then node_at (cs ! i) p else Gone)"
| "node_at n (i # p) = Gone"

fun map_at :: "(node \<Rightarrow> node) \<Rightarrow> node \<Rightarrow> path \<Rightarrow> node" where
  "map_at f n [] = f n"
| "map_at f (Elem t a cs) (i # p) =
     (if i < length cs then Elem t a (cs[i := map_at f (cs ! i) p]) else Elem t a cs)"
| "map_at f n (i # p) = n"

text \<open>\<open>node.find_all(tags)\<close> and \<open>node.find(tag)\<close>, as values.\<close>

definition find_all :: "string list \<Rightarrow> node \<Rightarrow> node list" where
  "find_all tags n = map (node_at n) (paths_node tags n)"

definition find_first :: "string list \<Rightarrow> node \<Rightarrow> node option" where
  "find_first tags n = (case find_all tags n of [] \<Rightarrow> None | x # xs \<Rightarrow> Some x)"

text \<open>The strings of a node in document order.\<close>

fun strings :: "node \<Rightarrow> string list" where
  "strings (Text s) = [s]"
| "strings (Elem t a cs) = concat (map strings cs)"
| "strings Gone = []"

text \<open>
  \<open>node.get_text(sep, strip=True)\<close>: every string stripped, the empty ones left out, the
  rest joined by the separator.
\<close>

definition get_text :: "string \<Rightarrow> node \<Rightarrow> string" where
  "get_text sep n = join sep (filter (\<lambda>s. s \<noteq> []) (map strip (strings n)))"

text \<open>
  \<open>tag.get(attr)\<close>: the value of an attribute. The attributes of an element are a
  dictionary, written as the list of its names, each once, with their values.
\<close>

fun get_attr :: "string \<Rightarrow> node \<Rightarrow> string option" where
  "get_attr k (Elem t a cs) = map_of a k"
| "get_attr k n = None"

section \<open>Achievements: \<open>norm\<close>, \<open>cell_text\<close>, \<open>find_achievements_table\<close>\<close>

text \<open>
  \<^verbatim>\<open>
  def norm(s: str) -> str:
      return re.sub(r"\s+", " ", (s or "").strip().lower())
  \<close>
\<close>

definition norm :: "string \<Rightarrow> string" where
  "norm s = sub_spaces '' '' (lower (strip s))"

text \<open>
  \<^verbatim>\<open>
  def cell_text(cell) -> str:
      for sup in cell.find_all("sup"):
          sup.decompose()
      return re.sub(r"\s+", " ", cell.get_text(" ", strip=True))
  \<close>
  The function changes the cell it reads: \<open>remove_sups\<close> is the cell afterwards, and
  \<open>cell_text\<close> the text returned. \<open>cell_text_at\<close> is the call on the cell at a position
  of a tree: the text, and the tree afterwards.
\<close>

fun remove_sups :: "node \<Rightarrow> node" where
  "remove_sups (Elem t a cs) =
     Elem t a (map (\<lambda>c. if is_tag [''sup''] c then Gone else remove_sups c) cs)"
| "remove_sups (Text s) = Text s"
| "remove_sups Gone = Gone"

definition cell_text :: "node \<Rightarrow> string" where
  "cell_text cell = sub_spaces '' '' (get_text '' '' (remove_sups cell))"

definition cell_text_at :: "node \<Rightarrow> path \<Rightarrow> string \<times> node" where
  "cell_text_at tree p = (cell_text (node_at tree p), map_at remove_sups tree p)"

text \<open>
  \<^verbatim>\<open>
  def find_achievements_table(soup: BeautifulSoup):
      for table in soup.find_all("table"):
          header_row = table.find("tr")
          if not header_row:
              continue
          ths = header_row.find_all("th")
          if len(ths) < 5:
              continue
          headers = [norm(th.get_text(" ", strip=True)) for th in ths]
          if "name" in headers and "grade" in headers and "points" in headers and "description" in headers:
              return table, headers
      return None, None
  \<close>
  \<open>find_achievements_table_in\<close> is the loop over the tables.
\<close>

fun find_achievements_table_in :: "node list \<Rightarrow> (node \<times> string list) option" where
  "find_achievements_table_in [] = None"
| "find_achievements_table_in (table # rest) =
     (case find_first [''tr''] table of
        None \<Rightarrow> find_achievements_table_in rest
      | Some header_row \<Rightarrow>
          (let ths = find_all [''th''] header_row
           in if length ths < 5 then find_achievements_table_in rest
              else let headers = map (\<lambda>th. norm (get_text '' '' th)) ths
                   in if ''name'' \<in> set headers \<and> ''grade'' \<in> set headers
                         \<and> ''points'' \<in> set headers \<and> ''description'' \<in> set headers
                      then Some (table, headers)
                      else find_achievements_table_in rest))"

definition find_achievements_table :: "node \<Rightarrow> (node \<times> string list) option" where
  "find_achievements_table soup = find_achievements_table_in (find_all [''table''] soup)"

text \<open>
  The locator in the words of the specification, as the code realises them: the header
  row of a table is its first row in document order, its headers are the normalised
  texts of the header cells of that row, and a table is accepted when that row has at
  least five header cells and its header set contains the required tokens.
\<close>

definition REQUIRED :: "string list" where
  "REQUIRED = [''name'', ''grade'', ''points'', ''description'']"

definition first_row_headers :: "node \<Rightarrow> string list option" where
  "first_row_headers table =
     (case find_first [''tr''] table of
        None \<Rightarrow> None
      | Some row \<Rightarrow> Some (map (\<lambda>th. norm (get_text '' '' th)) (find_all [''th''] row)))"

definition accepts :: "node \<Rightarrow> bool" where
  "accepts table \<longleftrightarrow>
     (case first_row_headers table of
        None \<Rightarrow> False
      | Some hs \<Rightarrow> 5 \<le> length hs \<and> set REQUIRED \<subseteq> set hs)"

section \<open>Achievements: the rows of \<open>main\<close>\<close>

text \<open>
  \<^verbatim>\<open>
  idx = {h: i for i, h in enumerate(headers)}
  name_i = idx.get("name")
  \<close>
  A header that occurs twice keeps its last position.
\<close>

definition idx_get :: "string list \<Rightarrow> string \<Rightarrow> nat option" where
  "idx_get headers = map_of (rev (zip headers [0..<length headers]))"

record columns =
  name_i :: nat
  grade_i :: nat
  points_i :: nat
  desc_i :: nat
  id_i :: "nat option"
  secret_i :: "nat option"
  impl_i :: "nat option"

text \<open>
  One item of \<open>achievements.json\<close>. The keys \<open>id\<close>, \<open>secret\<close> and \<open>implemented\<close> are
  present only when the table has the column and the row reaches it.
\<close>

record achievement =
  a_name :: string
  a_grade :: "int option"
  a_points :: "int option"
  a_description :: string
  a_id :: "int option option"
  a_secret :: "bool option"
  a_implemented :: "string option"

text \<open>\<open>sub in s\<close> for strings.\<close>

fun starts_with :: "string \<Rightarrow> string \<Rightarrow> bool" where
  "starts_with [] s = True"
| "starts_with (p # ps) [] = False"
| "starts_with (p # ps) (c # cs) = (p = c \<and> starts_with ps cs)"

fun contains :: "string \<Rightarrow> string \<Rightarrow> bool" where
  "contains sub [] = (sub = [])"
| "contains sub (c # cs) = (starts_with sub (c # cs) \<or> contains sub cs)"

text \<open>
  What the loop body does with one row: \<open>Skipped\<close> by the guard on the number of
  cells, \<open>Dropped\<close> for an empty name, or an item appended to the output.
\<close>

datatype 'a row_result = Skipped | Dropped | Item 'a

text \<open>
  \<^verbatim>\<open>
  for tr in rows[1:]:
      tds = tr.find_all(["td", "th"])
      if not tds or len(tds) <= max(name_i, grade_i, points_i, desc_i):
          continue
      name_cell = tds[name_i]
      a = name_cell.find("a")
      name = (a.get_text(strip=True) if a else cell_text(name_cell)).strip()
      if not name:
          continue
      grade = parse_int(cell_text(tds[grade_i])) if grade_i is not None else None
      points = parse_int(cell_text(tds[points_i])) if points_i is not None else None
      description = cell_text(tds[desc_i]) if desc_i is not None else ""
      item = {"name": name, "grade": grade, "points": points, "description": description}
      if id_i is not None and id_i < len(tds):
          item["id"] = parse_int(cell_text(tds[id_i]))
      if secret_i is not None and secret_i < len(tds):
          sec = cell_text(tds[secret_i])
          item["secret"] = True if "\<checkmark>" in sec or "yes" in sec.lower() else False
      if impl_i is not None and impl_i < len(tds):
          item["implemented"] = cell_text(tds[impl_i])
      out.append(item)
  \<close>
  The rows and the cells are objects of one tree, the table, and \<open>cell_text\<close> changes
  the cell it reads. So the table is passed along, and a row and its cells are
  positions in it: \<open>achievements_row cols table p\<close> is the loop body on the row at
  \<open>p\<close>, with the table afterwards. The check mark is not a character of the ASCII
  range, so on the strings modelled here the test for it is false.
\<close>

definition row_cells :: "node \<Rightarrow> path \<Rightarrow> path list" where
  "row_cells table p = map ((@) p) (paths_node [''td'', ''th''] (node_at table p))"

definition max_required :: "columns \<Rightarrow> nat" where
  "max_required cols = max (max (name_i cols) (grade_i cols)) (max (points_i cols) (desc_i cols))"

definition optional_cell :: "node \<Rightarrow> path list \<Rightarrow> nat option \<Rightarrow> string option \<times> node" where
  "optional_cell table tds i =
     (case i of
        None \<Rightarrow> (None, table)
      | Some k \<Rightarrow>
          if k < length tds
          then (let (s, t) = cell_text_at table (tds ! k) in (Some s, t))
          else (None, table))"

definition achievements_row :: "columns \<Rightarrow> node \<Rightarrow> path \<Rightarrow> achievement row_result \<times> node" where
  "achievements_row cols table p =
     (let tds = row_cells table p
      in if tds = [] \<or> length tds \<le> max_required cols then (Skipped, table)
         else
           let name_cell = node_at table (tds ! name_i cols);
               (name, t1) =
                 (case find_first [''a''] name_cell of
                    Some a \<Rightarrow> (strip (get_text [] a), table)
                  | None \<Rightarrow> (let (s, t) = cell_text_at table (tds ! name_i cols) in (strip s, t)))
           in if name = [] then (Dropped, t1)
              else
                let (g, t2) = cell_text_at t1 (tds ! grade_i cols);
                    (pt, t3) = cell_text_at t2 (tds ! points_i cols);
                    (d, t4) = cell_text_at t3 (tds ! desc_i cols);
                    (i, t5) = optional_cell t4 tds (id_i cols);
                    (sec, t6) = optional_cell t5 tds (secret_i cols);
                    (im, t7) = optional_cell t6 tds (impl_i cols)
                in (Item \<lparr>a_name = name, a_grade = parse_int g, a_points = parse_int pt,
                          a_description = d, a_id = map_option parse_int i,
                          a_secret = map_option (\<lambda>s. contains ''yes'' (lower s)) sec,
                          a_implemented = im\<rparr>, t7))"

fun achievements_loop :: "columns \<Rightarrow> node \<Rightarrow> path list \<Rightarrow> achievement list" where
  "achievements_loop cols table [] = []"
| "achievements_loop cols table (p # ps) =
     (case achievements_row cols table p of
        (Item it, t) \<Rightarrow> it # achievements_loop cols t ps
      | (Skipped, t) \<Rightarrow> achievements_loop cols t ps
      | (Dropped, t) \<Rightarrow> achievements_loop cols t ps)"

text \<open>
  \<open>main\<close> from the parsed page on: the table, the columns, the loop over \<open>rows[1:]\<close>.
  Without a table it raises; the four required columns are there when the table is
  found, and \<open>max\<close> of a missing one would raise a type error.
\<close>

datatype error =
  RuntimeError string | HTTPError nat | ConnectionError | DecodeError | TypeError

definition achievements_main :: "node \<Rightarrow> error + achievement list" where
  "achievements_main soup =
     (case find_achievements_table soup of
        None \<Rightarrow> Inl (RuntimeError
          ''Could not find the Achievements list table. The page structure may have changed.'')
      | Some (table, headers) \<Rightarrow>
          (case (idx_get headers ''name'', idx_get headers ''grade'',
                 idx_get headers ''points'', idx_get headers ''description'') of
             (Some n, Some g, Some pt, Some d) \<Rightarrow>
               Inr (achievements_loop
                 \<lparr>name_i = n, grade_i = g, points_i = pt, desc_i = d,
                  id_i = idx_get headers ''id'', secret_i = idx_get headers ''secret?'',
                  impl_i = idx_get headers ''implemented''\<rparr>
                 table (tl (paths_node [''tr''] table)))
           | _ \<Rightarrow> Inl TypeError))"

section \<open>Outfits: the rows of \<open>main\<close>\<close>

text \<open>
  \<^verbatim>\<open>
  def pick_image_url_from_cell(td) -> str | None:
      img = td.find("img")
      if not img:
          return None
      return img.get("data-src") or img.get("src")
  \<close>
  \<open>x or y\<close> is \<open>y\<close> when \<open>x\<close> is missing or empty.
\<close>

definition pick_image_url_from_cell :: "node \<Rightarrow> string option" where
  "pick_image_url_from_cell td =
     (case find_first [''img''] td of
        None \<Rightarrow> None
      | Some img \<Rightarrow>
          (case get_attr ''data-src'' img of
             None \<Rightarrow> get_attr ''src'' img
           | Some u \<Rightarrow> if u = [] then get_attr ''src'' img else Some u))"

text \<open>
  \<^verbatim>\<open>
  results = []
  seen = set()
  rows = table.find_all("tr")
  passed_header = False
  for tr in rows:
      if not passed_header:
          ths = tr.find_all("th")
          if ths:
              headers = [norm(th.get_text(' ', strip=True)) for th in ths]
              if any("female addons" in h for h in headers):
                  passed_header = True
          continue
      cells = tr.find_all(["td", "th"])
      if len(cells) <= female_idx:
          continue
      name_cell = cells[0]
      a = name_cell.find("a")
      name = (a.get_text(strip=True) if a else name_cell.get_text(" ", strip=True)).strip()
      if not name:
          continue
      key = name.lower()
      if key in seen:
          continue
      female_cell = cells[female_idx]
      img_url = pick_image_url_from_cell(female_cell)
      if not img_url:
          continue
      seen.add(key)
      results.append({"name": name, "img_url": img_url})
  \<close>
  Nothing here changes the tree, so the rows are values. \<open>outfits_row\<close> is the loop
  body after the header has been passed; besides the guard on the cells and the empty
  name, a row ends at a key already seen or at a cell without an image address.
\<close>

definition is_header_row :: "node \<Rightarrow> bool" where
  "is_header_row tr =
     (let ths = find_all [''th''] tr
      in ths \<noteq> [] \<and> list_ex (\<lambda>th. contains ''female addons'' (norm (get_text '' '' th))) ths)"

datatype outfit_result =
  OSkipped | ODropped | OSeen | ONoImage | OFound string string

definition outfits_row :: "nat \<Rightarrow> string list \<Rightarrow> node \<Rightarrow> outfit_result" where
  "outfits_row female_idx seen tr =
     (let cells = find_all [''td'', ''th''] tr
      in if length cells \<le> female_idx then OSkipped
         else
           let name_cell = cells ! 0;
               name = strip (case find_first [''a''] name_cell of
                               Some a \<Rightarrow> get_text [] a
                             | None \<Rightarrow> get_text '' '' name_cell)
           in if name = [] then ODropped
              else if lower name \<in> set seen then OSeen
              else (case pick_image_url_from_cell (cells ! female_idx) of
                      None \<Rightarrow> ONoImage
                    | Some u \<Rightarrow> if u = [] then ONoImage else OFound name u))"

fun outfits_rows :: "nat \<Rightarrow> bool \<Rightarrow> string list \<Rightarrow> node list \<Rightarrow> (string \<times> string) list" where
  "outfits_rows female_idx passed seen [] = []"
| "outfits_rows female_idx passed seen (tr # rows) =
     (if \<not> passed then outfits_rows female_idx (is_header_row tr) seen rows
      else (case outfits_row female_idx seen tr of
              OFound name u \<Rightarrow> (name, u) # outfits_rows female_idx True (lower name # seen) rows
            | _ \<Rightarrow> outfits_rows female_idx True seen rows))"

definition outfits_results :: "node \<Rightarrow> nat \<Rightarrow> (string \<times> string) list" where
  "outfits_results table female_idx =
     outfits_rows female_idx False [] (find_all [''tr''] table)"

section \<open>The names of the specification, and example documents\<close>

text \<open>
  The derived name of a row, as the specification words it: the stripped text of the
  first hyperlink of the name cell when there is one, else the stripped text of the
  cell. For the achievements the cell is the one in the name column and its text is
  \<open>cell_text\<close>; for the outfits it is the first cell and its text is \<open>get_text\<close>.
\<close>

definition achievements_name :: "columns \<Rightarrow> node \<Rightarrow> path \<Rightarrow> string" where
  "achievements_name cols table p =
     (let name_cell = node_at table (row_cells table p ! name_i cols)
      in strip (case find_first [''a''] name_cell of
                  Some a \<Rightarrow> get_text [] a
                | None \<Rightarrow> cell_text name_cell))"

definition outfits_name :: "node \<Rightarrow> string" where
  "outfits_name tr =
     (let name_cell = find_all [''td'', ''th''] tr ! 0
      in strip (case find_first [''a''] name_cell of
                  Some a \<Rightarrow> get_text [] a
                | None \<Rightarrow> get_text '' '' name_cell))"

text \<open>Small documents for the examples below.\<close>

definition th_cell :: "string \<Rightarrow> node" where
  "th_cell s = Elem ''th'' [] [Text s]"

definition td_cell :: "string \<Rightarrow> node" where
  "td_cell s = Elem ''td'' [] [Text s]"

definition link_cell :: "string \<Rightarrow> string \<Rightarrow> node" where
  "link_cell link_text rest = Elem ''td'' [] [Elem ''a'' [(''href'', ''/wiki/x'')] [Text link_text], Text rest]"

definition img_cell :: "string \<Rightarrow> node" where
  "img_cell u = Elem ''td'' [] [Elem ''img'' [(''src'', ''placeholder.gif''), (''data-src'', u)] []]"

definition tr_row :: "node list \<Rightarrow> node" where
  "tr_row cells = Elem ''tr'' [] cells"

text \<open>
  An achievements table with five headers, in another order and another letter case
  than the required tokens; the War Bear twice; a row with a blank name; a row of four
  cells and a row of three, where the last required column has index 3.
\<close>

definition example_table :: node where
  "example_table = Elem ''table'' []
     [tr_row [th_cell ''Points'', th_cell '' NAME'', th_cell ''Description'', th_cell ''Grade'',
              th_cell ''Secret?''],
      tr_row [td_cell ''3'', link_cell ''War Bear'' ''*'', td_cell ''Ride a bear'', td_cell ''1'',
              td_cell ''yes''],
      tr_row [td_cell ''5'', link_cell ''War Bear'' [], td_cell ''Again'', td_cell ''2 [note]'',
              td_cell ''no''],
      tr_row [td_cell ''1'', td_cell '' '', td_cell ''nameless'', td_cell ''1'', td_cell ''no''],
      tr_row [td_cell ''4'', td_cell ''Short'', td_cell ''four cells'', td_cell ''2''],
      tr_row [td_cell ''4'', td_cell ''Shorter'', td_cell ''three cells'']]"

definition example_doc :: node where
  "example_doc = Elem ''div'' [] [Text ''Achievements'', example_table]"

definition example_cols :: columns where
  "example_cols = \<lparr>name_i = 1, grade_i = 3, points_i = 0, desc_i = 2,
                    id_i = None, secret_i = Some 4, impl_i = None\<rparr>"

text \<open>A table whose header row is exactly the four required headers.\<close>

definition four_header_doc :: node where
  "four_header_doc = Elem ''div'' []
     [Elem ''table'' []
       [tr_row [th_cell ''Points'', th_cell ''Name'', th_cell ''Description'', th_cell ''Grade''],
        tr_row [td_cell ''3'', td_cell ''War Bear'', td_cell ''Ride a bear'', td_cell ''1'']]]"

text \<open>A table whose first row is a caption row, with the header row second.\<close>

definition caption_first_doc :: node where
  "caption_first_doc = Elem ''div'' []
     [Elem ''table'' []
       [tr_row [td_cell ''List of achievements''],
        tr_row [th_cell ''Name'', th_cell ''Id'', th_cell ''Grade'', th_cell ''Points'',
                th_cell ''Description''],
        tr_row [td_cell ''War Bear'', td_cell ''7'', td_cell ''1'', td_cell ''3'',
                td_cell ''Ride a bear'']]]"

text \<open>
  An outfits table: a legend row, the header row, the War Bear with a footnote mark, the
  same name again in lower case, a Mage without an image and then with one, and a row
  that does not reach the column.
\<close>

definition example_outfits :: node where
  "example_outfits = Elem ''table'' []
     [tr_row [th_cell ''Legend''],
      tr_row [th_cell ''Name'', th_cell ''Male Addons'', th_cell ''Female  Addons''],
      tr_row [link_cell ''War Bear'' ''*'', td_cell ''m'', img_cell ''http://img/war_bear.png''],
      tr_row [td_cell ''war bear'', td_cell ''m'', img_cell ''http://img/other.png''],
      tr_row [td_cell ''Mage'', td_cell ''m'', td_cell ''none''],
      tr_row [td_cell ''Mage'', td_cell ''m'', img_cell ''http://img/mage.gif''],
      tr_row [td_cell ''Short'', td_cell ''m'']]"

section \<open>The network and the files\<close>

text \<open>
  The scripts talk to a wiki over HTTP and write image files. A run is modelled against
  a fixed \<open>world\<close>: what each request would answer, and the library functions on
  addresses and markup that the scripts call. A request that raises (no connection, a
  timeout) answers \<open>None\<close>.
  \<^item> \<open>http_get\<close>: a plain GET of an address, for pages and for image files. \<open>body\<close> is
    the text of a page, or the bytes that arrive for a file; \<open>complete\<close> is false when
    the stream breaks after them.
  \<^item> \<open>api_parse\<close>: the \<open>action=parse\<close> request for a page title: the status, and what
    the code reads from the JSON reply, the string under \<open>parse\<close>, \<open>text\<close>, \<open>*\<close>,
    empty when a key on the way is missing; \<open>None\<close> when the reply is not JSON of that
    form, where the code raises.
  \<^item> \<open>api_imageinfo\<close>: the \<open>prop=imageinfo\<close> request for a file title: the status, and
    for each page of the reply the address of its first image info, empty when it has
    none.
  \<^item> \<open>can_write\<close>: whether a file of that name can be opened for writing.
  \<^item> \<open>url_path\<close> is \<open>urlparse(url).path\<close>, \<open>url_suffix\<close> is
    \<open>Path(urlparse(url).path).suffix\<close> (\<open>None\<close> when it raises), \<open>unquote\<close> is
    \<open>urllib.parse.unquote\<close>, \<open>parse_html\<close> is \<open>BeautifulSoup(html, "html.parser")\<close>.
  The delays between the requests are left out.
\<close>

record response =
  status :: nat
  content_type :: string
  body :: string
  complete :: bool

record world =
  http_get :: "string \<Rightarrow> response option"
  api_parse :: "string \<Rightarrow> (nat \<times> string option) option"
  api_imageinfo :: "string \<Rightarrow> (nat \<times> string list option) option"
  can_write :: "string \<Rightarrow> bool"
  url_path :: "string \<Rightarrow> string"
  url_suffix :: "string \<Rightarrow> string option"
  unquote :: "string \<Rightarrow> string"
  parse_html :: "string \<Rightarrow> node"

text \<open>\<open>r.raise_for_status()\<close> raises for the status codes from 400 to 599.\<close>

definition is_error_status :: "nat \<Rightarrow> bool" where
  "is_error_status st \<longleftrightarrow> 400 \<le> st \<and> st < 600"

text \<open>\<open>s.split(sep)\<close> for a separator that is not empty, scanning from the left.\<close>

function split_sub :: "string \<Rightarrow> string \<Rightarrow> string list" where
  "split_sub sep s =
     (if sep = [] \<or> s = [] then [s]
      else if starts_with sep s then [] # split_sub sep (drop (length sep) s)
      else (let r = split_sub sep (tl s) in (hd s # hd r) # tl r))"
  by pat_completeness auto
termination
  by (relation "measure (\<lambda>(sep, s). length s)") auto

declare split_sub.simps [simp del]

section \<open>TibiaWiki: \<open>fetch_html\<close>\<close>

text \<open>
  \<^verbatim>\<open>
  def fetch_html(scraper, url: str) -> str:
      r = scraper.get(url, timeout=60)
      if r.status_code != 403:
          r.raise_for_status()
          return r.text
      path = urlparse(url).path
      title = unquote(path.split("/wiki/")[-1])
      params = {"action": "parse", "page": title, "prop": "text", "format": "json",
                "redirects": "1", "origin": "*"}
      api_r = scraper.get(API_URL, params=params, timeout=60)
      api_r.raise_for_status()
      data = api_r.json()
      html = (data.get("parse", {}).get("text", {}) or {}).get("*")
      if not html:
          raise RuntimeError(f"Could not parse HTML for page '{title}'.")
      return html
  \<close>
\<close>

definition page_title :: "world \<Rightarrow> string \<Rightarrow> string" where
  "page_title w url = unquote w (last (split_sub ''/wiki/'' (url_path w url)))"

definition no_html_message :: "string \<Rightarrow> string" where
  "no_html_message title =
     ''Could not parse HTML for page '' @ [CHR 0x27] @ title @ [CHR 0x27, CHR ''.'']"

definition fetch_html :: "world \<Rightarrow> string \<Rightarrow> error + string" where
  "fetch_html w url =
     (case http_get w url of
        None \<Rightarrow> Inl ConnectionError
      | Some r \<Rightarrow>
          if status r \<noteq> 403
          then (if is_error_status (status r) then Inl (HTTPError (status r)) else Inr (body r))
          else
            (let title = page_title w url
             in case api_parse w title of
                  None \<Rightarrow> Inl ConnectionError
                | Some (st, data) \<Rightarrow>
                    if is_error_status st then Inl (HTTPError st)
                    else (case data of
                            None \<Rightarrow> Inl DecodeError
                          | Some html \<Rightarrow>
                              if html = [] then Inl (RuntimeError (no_html_message title))
                              else Inr html)))"

section \<open>TibiaWiki: \<open>mw_original_image_url\<close>, \<open>download\<close>, \<open>extract_name_and_wiki_file\<close>\<close>

text \<open>
  \<^verbatim>\<open>
  def mw_original_image_url(scraper, filename: str) -> str | None:
      for ns in ("Arquivo:", "File:"):
          params = {"action": "query", "titles": f"{ns}{filename}", "prop": "imageinfo",
                    "iiprop": "url", "format": "json", "origin": "*"}
          r = scraper.get(API_URL, params=params, timeout=60)
          if r.status_code == 403:
              return None
          r.raise_for_status()
          data = r.json()
          pages = data.get("query", {}).get("pages", {})
          for _, page in pages.items():
              ii = page.get("imageinfo")
              if ii and isinstance(ii, list) and ii[0].get("url"):
                  return ii[0]["url"]
          time.sleep(REQUEST_DELAY_SECONDS)
      return None
  \<close>
\<close>

fun image_url_in :: "world \<Rightarrow> string \<Rightarrow> string list \<Rightarrow> error + string option" where
  "image_url_in w filename [] = Inr None"
| "image_url_in w filename (ns # rest) =
     (case api_imageinfo w (ns @ filename) of
        None \<Rightarrow> Inl ConnectionError
      | Some (st, data) \<Rightarrow>
          if st = 403 then Inr None
          else if is_error_status st then Inl (HTTPError st)
          else (case data of
                  None \<Rightarrow> Inl DecodeError
                | Some urls \<Rightarrow>
                    (case filter (\<lambda>u. u \<noteq> []) urls of
                       u # us \<Rightarrow> Inr (Some u)
                     | [] \<Rightarrow> image_url_in w filename rest)))"

definition mw_original_image_url :: "world \<Rightarrow> string \<Rightarrow> error + string option" where
  "mw_original_image_url w filename = image_url_in w filename [''Arquivo:'', ''File:'']"

text \<open>
  \<^verbatim>\<open>
  def download(scraper, url: str, out_path: Path) -> None:
      with scraper.get(url, stream=True, timeout=120) as r:
          r.raise_for_status()
          with open(out_path, "wb") as f:
              for chunk in r.iter_content(chunk_size=1024 * 128):
                  if chunk:
                      f.write(chunk)
  \<close>
  The files of the output directory are a map from file names to contents. The result
  is the files afterwards, and whether the call returned (\<open>True\<close>) or raised: before the
  file is opened, which leaves the files as they are, or while the body arrives, which
  leaves what has arrived.
\<close>

type_synonym files = "string \<rightharpoonup> string"

definition download :: "world \<Rightarrow> files \<Rightarrow> string \<Rightarrow> string \<Rightarrow> files \<times> bool" where
  "download w fs url out_path =
     (case http_get w url of
        None \<Rightarrow> (fs, False)
      | Some r \<Rightarrow>
          if is_error_status (status r) then (fs, False)
          else if \<not> can_write w out_path then (fs, False)
          else (fs(out_path \<mapsto> body r), complete r))"

text \<open>
  \<^verbatim>\<open>
  def extract_name_and_wiki_file(html: str) -> list[tuple[str, str]]:
      soup = BeautifulSoup(html, "html.parser")
      pairs: list[tuple[str, str]] = []
      for tr in soup.find_all("tr"):
          img = tr.find("img", alt=True)
          if not img:
              continue
          wiki_file = (img.get("alt") or "").strip()
          if not re.search(r"\.(gif|png)$", wiki_file, re.IGNORECASE):
              continue
          chosen = None
          for a in tr.find_all("a", href=True):
              title = (a.get("title") or "").strip()
              href = a["href"]
              text = a.get_text(strip=True)
              if not text:
                  continue
              if title.startswith(("Arquivo:", "Image:", "Especial:", "Special:")):
                  continue
              if "/wiki/" not in href:
                  continue
              chosen = text
              break
          if not chosen:
              continue
          pairs.append((chosen, wiki_file))
      return pairs
  \<close>
\<close>

definition attr_or_empty :: "string \<Rightarrow> node \<Rightarrow> string" where
  "attr_or_empty k n = (case get_attr k n of None \<Rightarrow> [] | Some v \<Rightarrow> v)"

definition ends_with :: "string \<Rightarrow> string \<Rightarrow> bool" where
  "ends_with suffix s = starts_with (rev suffix) (rev s)"

definition is_sprite_file :: "string \<Rightarrow> bool" where
  "is_sprite_file wiki_file \<longleftrightarrow>
     ends_with ''.gif'' (lower wiki_file) \<or> ends_with ''.png'' (lower wiki_file)"

fun chosen_link :: "node list \<Rightarrow> string option" where
  "chosen_link [] = None"
| "chosen_link (a # rest) =
     (let title = strip (attr_or_empty ''title'' a);
          href = attr_or_empty ''href'' a;
          text = get_text [] a
      in if text = [] then chosen_link rest
         else if list_ex (\<lambda>p. starts_with p title)
                   [''Arquivo:'', ''Image:'', ''Especial:'', ''Special:'']
           then chosen_link rest
         else if \<not> contains ''/wiki/'' href then chosen_link rest
         else Some text)"

definition extract_row :: "node \<Rightarrow> (string \<times> string) option" where
  "extract_row tr =
     (case filter (\<lambda>n. get_attr ''alt'' n \<noteq> None) (find_all [''img''] tr) of
        [] \<Rightarrow> None
      | img # imgs \<Rightarrow>
          (let wiki_file = strip (attr_or_empty ''alt'' img)
           in if \<not> is_sprite_file wiki_file then None
              else (case chosen_link (filter (\<lambda>n. get_attr ''href'' n \<noteq> None)
                                        (find_all [''a''] tr)) of
                      None \<Rightarrow> None
                    | Some chosen \<Rightarrow> Some (chosen, wiki_file))))"

definition extract_name_and_wiki_file :: "world \<Rightarrow> string \<Rightarrow> (string \<times> string) list" where
  "extract_name_and_wiki_file w html =
     List.map_filter extract_row (find_all [''tr''] (parse_html w html))"

section \<open>TibiaWiki: \<open>run_group\<close>\<close>

text \<open>
  \<^verbatim>\<open>
  index: dict[str, dict] = {}
  for url in page_urls:
      html = fetch_html(scraper, url)
      pairs = extract_name_and_wiki_file(html)
      for name, wiki_file in pairs:
          if name in index:
              continue
          fandom_file = build_fandom_gif_file(name)
          if not fandom_file:
              continue
          index[name] = {"name": name, "file": fandom_file,
                         "sourceWikiFile": wiki_file, "sourceUrl": ""}
  \<close>
  The dictionary keeps the order of insertion: it is a list of keys with their rows.
  \<open>add_pairs\<close> is the inner loop, \<open>fetch_pages\<close> the outer one; an exception of
  \<open>fetch_html\<close> ends the run.
\<close>

record row =
  r_name :: string
  r_file :: string
  r_source_wiki_file :: string
  r_source_url :: string

type_synonym index = "(string \<times> row) list"

definition new_row :: "string \<Rightarrow> string \<Rightarrow> string \<Rightarrow> row" where
  "new_row name fandom_file wiki_file =
     \<lparr>r_name = name, r_file = fandom_file, r_source_wiki_file = wiki_file, r_source_url = []\<rparr>"

fun add_pairs :: "index \<Rightarrow> (string \<times> string) list \<Rightarrow> index" where
  "add_pairs index [] = index"
| "add_pairs index ((name, wiki_file) # pairs) =
     (if name \<in> set (map fst index) then add_pairs index pairs
      else (case build_fandom_gif_file name of
              None \<Rightarrow> add_pairs index pairs
            | Some fandom_file \<Rightarrow>
                add_pairs (index @ [(name, new_row name fandom_file wiki_file)]) pairs))"

fun fetch_pages :: "world \<Rightarrow> index \<Rightarrow> string list \<Rightarrow> error + index" where
  "fetch_pages w index [] = Inr index"
| "fetch_pages w index (url # urls) =
     (case fetch_html w url of
        Inl e \<Rightarrow> Inl e
      | Inr html \<Rightarrow> fetch_pages w (add_pairs index (extract_name_and_wiki_file w html)) urls)"

text \<open>
  \<^verbatim>\<open>
  downloaded = 0
  skipped = 0
  for name, row in sorted(index.items(), key=lambda x: x[0].lower()):
      src_url = mw_original_image_url(scraper, row["sourceWikiFile"])
      row["sourceUrl"] = src_url or ""
      out_path = sprites_dir / row["file"]
      if out_path.exists() and out_path.stat().st_size > 0:
          continue
      if not src_url:
          skipped += 1
          continue
      try:
          download(scraper, src_url, out_path)
          downloaded += 1
      except Exception:
          skipped += 1
  out_index = group_dir / "index.json"
  with open(out_index, "w", encoding="utf-8") as f:
      json.dump(list(index.values()), f, ensure_ascii=False, indent=2)
  \<close>
  The rows of the sorted list are the rows of the dictionary: writing the address into
  one writes it into the row under that name. The state of the loop is the dictionary,
  the files, the two counters and, for the statements about what a run fetches, the
  list of the calls of \<open>download\<close> so far (address and file name). \<open>mirror_step\<close> is
  the body of the loop once the address has been looked up; an exception of
  \<open>mw_original_image_url\<close> ends the run.
\<close>

record mirror =
  m_index :: index
  m_files :: files
  m_fetched :: "(string \<times> string) list"
  m_downloaded :: nat
  m_skipped :: nat

definition set_source_url :: "string \<Rightarrow> string \<Rightarrow> index \<Rightarrow> index" where
  "set_source_url name u index =
     map (\<lambda>(k, r). if k = name then (k, r\<lparr>r_source_url := u\<rparr>) else (k, r)) index"

definition present :: "files \<Rightarrow> string \<Rightarrow> bool" where
  "present fs out_path \<longleftrightarrow> (case fs out_path of None \<Rightarrow> False | Some c \<Rightarrow> c \<noteq> [])"

definition mirror_step :: "world \<Rightarrow> mirror \<Rightarrow> string \<times> row \<Rightarrow> string option \<Rightarrow> mirror" where
  "mirror_step w m entry src_url =
     (let (name, row) = entry;
          u = (case src_url of None \<Rightarrow> [] | Some u \<Rightarrow> u);
          m1 = m\<lparr>m_index := set_source_url name u (m_index m)\<rparr>;
          out_path = r_file row
      in if present (m_files m1) out_path then m1
         else if u = [] then m1\<lparr>m_skipped := m_skipped m1 + 1\<rparr>
         else
           (let (fs, ok) = download w (m_files m1) u out_path;
                m2 = m1\<lparr>m_files := fs, m_fetched := m_fetched m1 @ [(u, out_path)]\<rparr>
            in if ok then m2\<lparr>m_downloaded := m_downloaded m2 + 1\<rparr>
               else m2\<lparr>m_skipped := m_skipped m2 + 1\<rparr>))"

fun mirror_rows :: "world \<Rightarrow> mirror \<Rightarrow> (string \<times> row) list \<Rightarrow> error + mirror" where
  "mirror_rows w m [] = Inr m"
| "mirror_rows w m (entry # rest) =
     (case mw_original_image_url w (r_source_wiki_file (snd entry)) of
        Inl e \<Rightarrow> Inl e
      | Inr src_url \<Rightarrow> mirror_rows w (mirror_step w m entry src_url) rest)"

definition run_group :: "world \<Rightarrow> files \<Rightarrow> string list \<Rightarrow> error + mirror" where
  "run_group w fs page_urls =
     (case fetch_pages w [] page_urls of
        Inl e \<Rightarrow> Inl e
      | Inr index \<Rightarrow>
          mirror_rows w
            \<lparr>m_index = index, m_files = fs, m_fetched = [], m_downloaded = 0, m_skipped = 0\<rparr>
            (sort_key (\<lambda>(name, row). lower name) index))"

text \<open>The list written to \<open>index.json\<close>.\<close>

definition index_json :: "mirror \<Rightarrow> row list" where
  "index_json m = map snd (m_index m)"

section \<open>An example world\<close>

text \<open>
  A wiki with one bosses page. The page itself is denied (403) and comes through the
  parse request; it lists Ghazbaran twice, with two image files, and Orshabaal once.
  Ghazbaran's first image resolves under the \<open>File:\<close> namespace and can be fetched;
  Orshabaal's image has no image info under either namespace. The page \<open>Empty\<close>
  answers 200 with an empty body, the page \<open>Nothing\<close> is denied and has no parsed
  text.
\<close>

definition bosses_page :: node where
  "bosses_page = Elem ''table'' []
     [tr_row [Elem ''td'' [] [Elem ''img'' [(''alt'', ''Ghazbaran.gif'')] []],
              Elem ''td'' [] [Elem ''a'' [(''href'', ''/wiki/Ghazbaran''), (''title'', ''Ghazbaran'')]
                               [Text ''Ghazbaran'']]],
      tr_row [Elem ''td'' [] [Elem ''img'' [(''alt'', ''Orshabaal.gif'')] []],
              Elem ''td'' [] [Elem ''a'' [(''href'', ''/wiki/Orshabaal'')] [Text ''Orshabaal'']]],
      tr_row [Elem ''td'' [] [Elem ''img'' [(''alt'', ''Ghazbaran_Old.png'')] []],
              Elem ''td'' [] [Elem ''a'' [(''href'', ''/wiki/Ghazbaran'')] [Text ''Ghazbaran'']]]]"

definition example_world :: world where
  "example_world =
     \<lparr>http_get = (\<lambda>u.
         if u = ''https://www.tibiawiki.com.br/wiki/Empty''
           then Some \<lparr>status = 200, content_type = ''text/html'', body = [], complete = True\<rparr>
         else if u = ''https://www.tibiawiki.com.br/images/Ghazbaran.gif''
           then Some \<lparr>status = 200, content_type = ''image/gif'', body = ''GIF89a'', complete = True\<rparr>
         else Some \<lparr>status = 403, content_type = ''text/html'', body = ''Forbidden'', complete = True\<rparr>),
      api_parse = (\<lambda>title.
         if title = ''Bosses'' then Some (200, Some ''<table>bosses</table>'')
         else Some (200, Some [])),
      api_imageinfo = (\<lambda>title.
         if title = ''File:Ghazbaran.gif''
           then Some (200, Some [''https://www.tibiawiki.com.br/images/Ghazbaran.gif''])
         else Some (200, Some [[]])),
      can_write = (\<lambda>out_path. True),
      url_path = drop (length ''https://www.tibiawiki.com.br''),
      url_suffix = (\<lambda>u. Some []),
      unquote = (\<lambda>s. s),
      parse_html = (\<lambda>html. if html = ''<table>bosses</table>'' then bosses_page else Gone)\<rparr>"

section \<open>Fandom: \<open>api_parse_html\<close>, \<open>choose_best_image_from_page\<close>, \<open>download\<close>\<close>

text \<open>
  \<^verbatim>\<open>
  def api_parse_html(session: requests.Session, title: str) -> str:
      params = {"action": "parse", "format": "json", "page": title, "prop": "text", "redirects": 1}
      r = session.get(API, params=params, headers=HEADERS, timeout=60)
      r.raise_for_status()
      html = ((r.json().get("parse", {}) or {}).get("text", {}) or {}).get("*")
      if not html:
          raise RuntimeError(f"parse returned no html for {title}")
      return html
  \<close>
\<close>

definition api_parse_html :: "world \<Rightarrow> string \<Rightarrow> error + string" where
  "api_parse_html w title =
     (case api_parse w title of
        None \<Rightarrow> Inl ConnectionError
      | Some (st, data) \<Rightarrow>
          if is_error_status st then Inl (HTTPError st)
          else (case data of
                  None \<Rightarrow> Inl DecodeError
                | Some html \<Rightarrow>
                    if html = [] then Inl (RuntimeError (''parse returned no html for '' @ title))
                    else Inr html))"

text \<open>
  \<^verbatim>\<open>
  def choose_best_image_from_page(html: str) -> str | None:
      soup = BeautifulSoup(html, "html.parser")
      fig = soup.select_one("figure.pi-item.pi-image img")
      if fig:
          for attr in ("data-src", "src"):
              u = fig.get(attr)
              if u:
                  return u
      img = soup.select_one("img")
      if img:
          for attr in ("data-src", "src"):
              u = img.get(attr)
              if u:
                  return u
      return None
  \<close>
  \<open>figure_imgs\<close> lists, in document order, the images below a \<open>figure\<close> element whose
  classes include \<open>pi-item\<close> and \<open>pi-image\<close>; the flag says whether such an element
  has been passed on the way down.
\<close>

definition is_pi_figure :: "node \<Rightarrow> bool" where
  "is_pi_figure n \<longleftrightarrow>
     is_tag [''figure''] n
     \<and> ''pi-item'' \<in> set (split_ws (attr_or_empty ''class'' n))
     \<and> ''pi-image'' \<in> set (split_ws (attr_or_empty ''class'' n))"

fun figure_imgs :: "bool \<Rightarrow> node \<Rightarrow> node list" where
  "figure_imgs inside (Elem t a cs) =
     concat (map (\<lambda>c. (if (inside \<or> is_pi_figure (Elem t a cs)) \<and> is_tag [''img''] c
                         then [c] else [])
                       @ figure_imgs (inside \<or> is_pi_figure (Elem t a cs)) c) cs)"
| "figure_imgs inside (Text s) = []"
| "figure_imgs inside Gone = []"

definition first_source :: "node \<Rightarrow> string option" where
  "first_source img =
     (if attr_or_empty ''data-src'' img \<noteq> [] then Some (attr_or_empty ''data-src'' img)
      else if attr_or_empty ''src'' img \<noteq> [] then Some (attr_or_empty ''src'' img)
      else None)"

definition any_image :: "node \<Rightarrow> string option" where
  "any_image soup =
     (case find_first [''img''] soup of None \<Rightarrow> None | Some img \<Rightarrow> first_source img)"

definition choose_best_image_from_page :: "world \<Rightarrow> string \<Rightarrow> string option" where
  "choose_best_image_from_page w html =
     (let soup = parse_html w html
      in case figure_imgs False soup of
           [] \<Rightarrow> any_image soup
         | fig # figs \<Rightarrow>
             (case first_source fig of
                Some u \<Rightarrow> Some u
              | None \<Rightarrow> any_image soup))"

text \<open>
  \<^verbatim>\<open>
  def download(session: requests.Session, url: str, out_path: Path):
      with session.get(url, headers=HEADERS, stream=True, timeout=120) as r:
          r.raise_for_status()
          ct = (r.headers.get("content-type") or "").lower()
          if "image/" not in ct:
              raise RuntimeError(f"Not an image: {ct} from {url}")
          out_path.parent.mkdir(parents=True, exist_ok=True)
          with open(out_path, "wb") as f:
              for chunk in r.iter_content(1024 * 128):
                  if chunk:
                      f.write(chunk)
  \<close>
\<close>

definition fandom_download :: "world \<Rightarrow> files \<Rightarrow> string \<Rightarrow> string \<Rightarrow> files \<times> bool" where
  "fandom_download w fs url out_path =
     (case http_get w url of
        None \<Rightarrow> (fs, False)
      | Some r \<Rightarrow>
          if is_error_status (status r) then (fs, False)
          else if \<not> contains ''image/'' (lower (content_type r)) then (fs, False)
          else if \<not> can_write w out_path then (fs, False)
          else (fs(out_path \<mapsto> body r), complete r))"

section \<open>Fandom: the mirror loops of the mounts and of the outfits\<close>

text \<open>
  \<^verbatim>\<open>
  out_items = []
  for title in titles:
      try:
          html = api_parse_html(s, title)
          img_url = choose_best_image_from_page(html)
          if not img_url:
              continue
          img_url = normalize_image_url(img_url)
          ext = Path(urlparse(img_url).path).suffix or ".png"
          filename = safe_filename(title) + ext
          out_path = OUT_DIR / filename
          download(s, img_url, out_path)
          out_items.append({"name": title, "file": filename, "sourceUrl": img_url})
      except Exception as e:
          print("x", title, ":", e)
  \<close>
  \<open>normalize_image_url\<close> returns its argument. The body of the loop gives at most one
  item; with it come the calls of \<open>download\<close> it made and the files afterwards.
  Every exception ends the body for this title only.
\<close>

record item =
  i_name :: string
  i_file :: string
  i_source_url :: string

definition mirror_image ::
  "world \<Rightarrow> files \<Rightarrow> string \<Rightarrow> string \<Rightarrow> item list \<times> (string \<times> string) list \<times> files" where
  "mirror_image w fs name img_url =
     (case url_suffix w img_url of
        None \<Rightarrow> ([], [], fs)
      | Some suffix \<Rightarrow>
          (let ext = (if suffix = [] then ''.png'' else suffix);
               filename = safe_filename name @ ext;
               (fs', ok) = fandom_download w fs img_url filename
           in (if ok then [\<lparr>i_name = name, i_file = filename, i_source_url = img_url\<rparr>] else [],
               [(img_url, filename)], fs')))"

definition mounts_title ::
  "world \<Rightarrow> files \<Rightarrow> string \<Rightarrow> item list \<times> (string \<times> string) list \<times> files" where
  "mounts_title w fs title =
     (case api_parse_html w title of
        Inl e \<Rightarrow> ([], [], fs)
      | Inr html \<Rightarrow>
          (case choose_best_image_from_page w html of
             None \<Rightarrow> ([], [], fs)
           | Some img_url \<Rightarrow> mirror_image w fs title img_url))"

fun mounts_loop ::
  "world \<Rightarrow> files \<Rightarrow> string list \<Rightarrow> item list \<times> (string \<times> string) list \<times> files" where
  "mounts_loop w fs [] = ([], [], fs)"
| "mounts_loop w fs (title # titles) =
     (let (its, calls, fs1) = mounts_title w fs title;
          (its', calls', fs2) = mounts_loop w fs1 titles
      in (its @ its', calls @ calls', fs2))"

text \<open>
  \<^verbatim>\<open>
  out_items = []
  for item in results:
      name = item["name"]
      img_url = item["img_url"]
      try:
          ext = Path(urlparse(img_url).path).suffix or ".png"
          filename = safe_filename(name) + ext
          out_path = OUT_DIR / filename
          download(s, img_url, out_path)
          out_items.append({"name": name, "file": filename, "sourceUrl": img_url})
      except Exception as e:
          print("x", name, ":", e)
  \<close>
\<close>

fun outfits_loop ::
  "world \<Rightarrow> files \<Rightarrow> (string \<times> string) list
     \<Rightarrow> item list \<times> (string \<times> string) list \<times> files" where
  "outfits_loop w fs [] = ([], [], fs)"
| "outfits_loop w fs ((name, img_url) # results) =
     (let (its, calls, fs1) = mirror_image w fs name img_url;
          (its', calls', fs2) = outfits_loop w fs1 results
      in (its @ its', calls @ calls', fs2))"

definition outfits_index :: "world \<Rightarrow> files \<Rightarrow> node \<Rightarrow> nat \<Rightarrow> item list" where
  "outfits_index w fs table female_idx =
     fst (outfits_loop w fs (outfits_results table female_idx))"

text \<open>
  A wiki with two mount pages: the War Bear with an infobox image, the Racing Bird
  with a page that has no image at all.
\<close>

definition example_fandom :: world where
  "example_fandom =
     \<lparr>http_get = (\<lambda>u.
         if u = ''https://static.wikia.nocookie.net/War_Bear.png''
           then Some \<lparr>status = 200, content_type = ''image/png'', body = ''PNG'', complete = True\<rparr>
         else Some \<lparr>status = 404, content_type = ''text/html'', body = ''Not found'', complete = True\<rparr>),
      api_parse = (\<lambda>title.
         if title = ''War Bear'' then Some (200, Some ''<figure>war bear</figure>'')
         else if title = ''Racing Bird'' then Some (200, Some ''<p>racing bird</p>'')
         else Some (200, Some [])),
      api_imageinfo = (\<lambda>title. Some (200, Some [])),
      can_write = (\<lambda>out_path. True),
      url_path = (\<lambda>u. u),
      url_suffix = (\<lambda>u. Some ''.png''),
      unquote = (\<lambda>s. s),
      parse_html = (\<lambda>html.
         if html = ''<figure>war bear</figure>''
           then Elem ''div'' []
                  [Elem ''figure'' [(''class'', ''pi-item pi-image'')]
                     [Elem ''a'' []
                        [Elem ''img'' [(''src'', ''data:image/gif;base64,R0lGOD''),
                                       (''data-src'', ''https://static.wikia.nocookie.net/War_Bear.png'')]
                           []]]]
         else Elem ''p'' [] [Text ''A fast bird''])\<rparr>"

section \<open>The index and the downloads, in the words of the specification\<close>

text \<open>
  The address recorded for a row: the one that the lookup returns, empty when it
  returns none.
\<close>

definition resolved :: "world \<Rightarrow> row \<Rightarrow> string" where
  "resolved w r =
     (case mw_original_image_url w (r_source_wiki_file r) of
        Inr (Some u) \<Rightarrow> u
      | _ \<Rightarrow> [])"

definition fill_urls :: "world \<Rightarrow> index \<Rightarrow> index" where
  "fill_urls w index = map (\<lambda>(k, r). (k, r\<lparr>r_source_url := resolved w r\<rparr>)) index"

text \<open>The pairs of all pages of a run, in the order of the pages.\<close>

definition all_pairs :: "world \<Rightarrow> string list \<Rightarrow> (string \<times> string) list" where
  "all_pairs w page_urls =
     concat (map (\<lambda>url. case fetch_html w url of
                            Inl e \<Rightarrow> []
                          | Inr html \<Rightarrow> extract_name_and_wiki_file w html) page_urls)"

text \<open>
  A call of \<open>download\<close> reaches the file when the request is answered without an error
  status and the file can be opened; it delivers when, moreover, the body is not empty.
\<close>

definition reaches :: "world \<Rightarrow> string \<times> string \<Rightarrow> bool" where
  "reaches w c \<longleftrightarrow>
     (case http_get w (fst c) of
        None \<Rightarrow> False
      | Some r \<Rightarrow> \<not> is_error_status (status r) \<and> can_write w (snd c))"

definition delivers :: "world \<Rightarrow> string \<times> string \<Rightarrow> bool" where
  "delivers w c \<longleftrightarrow>
     (case http_get w (fst c) of
        None \<Rightarrow> False
      | Some r \<Rightarrow> \<not> is_error_status (status r) \<and> can_write w (snd c) \<and> body r \<noteq> [])"

text \<open>
  The candidates of the outfits table: the rows after the header row that pass the
  guard on the cells and have a name and an image address, whatever has been seen.
\<close>

fun outfit_candidates :: "nat \<Rightarrow> bool \<Rightarrow> node list \<Rightarrow> (string \<times> string) list" where
  "outfit_candidates female_idx passed [] = []"
| "outfit_candidates female_idx passed (tr # rows) =
     (if \<not> passed then outfit_candidates female_idx (is_header_row tr) rows
      else (case outfits_row female_idx [] tr of
              OFound name u \<Rightarrow> (name, u) # outfit_candidates female_idx True rows
            | _ \<Rightarrow> outfit_candidates female_idx True rows))"

definition by_key :: "(string \<times> string) list \<Rightarrow> (string \<times> string \<times> string) list" where
  "by_key results = map (\<lambda>(name, u). (lower name, name, u)) results"

text \<open>
  For the second run of \<open>run_group\<close>: the body that a request brings, empty when it
  raises; an entry is settled for given files and given earlier calls when its file is
  there, or it has no address, or its download has been called before and either does
  not reach the file or brings an empty body into a file that is already empty; and
  files grow when every file that is there stays as it is and every empty file stays
  empty or is filled.
\<close>

definition body_of :: "world \<Rightarrow> string \<Rightarrow> string" where
  "body_of w u = (case http_get w u of None \<Rightarrow> [] | Some r \<Rightarrow> body r)"

definition settled :: "world \<Rightarrow> files \<Rightarrow> (string \<times> string) set \<Rightarrow> string \<times> row \<Rightarrow> bool" where
  "settled w fs F e \<longleftrightarrow>
     present fs (r_file (snd e)) \<or> resolved w (snd e) = []
     \<or> ((resolved w (snd e), r_file (snd e)) \<in> F
         \<and> (\<not> reaches w (resolved w (snd e), r_file (snd e))
             \<or> (body_of w (resolved w (snd e)) = [] \<and> fs (r_file (snd e)) = Some [])))"

definition grows :: "files \<Rightarrow> files \<Rightarrow> bool" where
  "grows fs fs' \<longleftrightarrow>
     (\<forall>q. (present fs q \<longrightarrow> fs' q = fs q)
          \<and> (fs q = Some [] \<longrightarrow> fs' q = Some [] \<or> present fs' q))"

section \<open>Properties of the string functions\<close>

lemma set_sub_spaces: "set (sub_spaces rep s) \<subseteq> set rep \<union> {c \<in> set s. \<not> is_space c}"
proof (induction rep s rule: sub_spaces.induct)
  case (1 rep)
  show ?case by simp
next
  case (2 rep c cs)
  show ?case
  proof (cases "is_space c")
    case True
    with 2 have "set (sub_spaces rep (dropWhile is_space cs))
        \<subseteq> set rep \<union> {c \<in> set (dropWhile is_space cs). \<not> is_space c}" by simp
    moreover have "set (dropWhile is_space cs) \<subseteq> set cs"
      by (rule set_dropWhileD[THEN subsetI])
    ultimately show ?thesis using True by auto
  next
    case False
    with 2 show ?thesis by auto
  qed
qed

lemma set_strip: "set (strip s) \<subseteq> set s"
proof -
  have "set (strip s) \<subseteq> set (dropWhile is_space s)"
    unfolding strip_def using set_dropWhileD by fastforce
  also have "\<dots> \<subseteq> set s" using set_dropWhileD by fastforce
  finally show ?thesis .
qed

text \<open>Stripping on the right only; \<open>strip\<close> is it after the leading whitespace is dropped.\<close>

lemma strip_rstrip: "strip s = rstrip (dropWhile is_space s)"
  by (simp add: strip_def rstrip_def)

lemma rstrip_append:
  "rstrip (a @ b) = (if \<forall>x\<in>set b. is_space x then rstrip a else a @ rstrip b)"
  by (simp add: rstrip_def dropWhile_append)

lemma rstrip_all_space: "\<forall>x\<in>set s. is_space x \<Longrightarrow> rstrip s = []"
  by (simp add: rstrip_def)

lemma rstrip_Nil_iff: "rstrip s = [] \<longleftrightarrow> (\<forall>x\<in>set s. is_space x)"
  by (auto simp: rstrip_def dropWhile_eq_Nil_conv)

lemma rstrip_nospace: "\<forall>x\<in>set w. \<not> is_space x \<Longrightarrow> rstrip w = w"
  by (cases w rule: rev_cases) (auto simp: rstrip_def)

lemma rstrip_word_append: "\<forall>x\<in>set w. \<not> is_space x \<Longrightarrow> rstrip (w @ r) = w @ rstrip r"
  by (simp add: rstrip_append rstrip_nospace rstrip_all_space)

lemma sub_spaces_nospace_append:
  "\<forall>x\<in>set w. \<not> is_space x \<Longrightarrow> sub_spaces rep (w @ v) = w @ sub_spaces rep v"
  by (induction w) auto

lemma sub_spaces_space_hd:
  "v \<noteq> [] \<Longrightarrow> is_space (hd v) \<Longrightarrow>
   sub_spaces rep v = rep @ sub_spaces rep (dropWhile is_space v)"
  by (cases v) auto

lemma dropWhile_rstrip: "dropWhile is_space (rstrip r) = rstrip (dropWhile is_space r)"
proof -
  let ?a = "takeWhile is_space r" and ?d = "dropWhile is_space r"
  show ?thesis
  proof (cases "?d = []")
    case True
    then have all: "\<forall>x\<in>set r. is_space x" by (simp add: dropWhile_eq_Nil_conv)
    have "rstrip ?d = []" by (simp only: True) (simp add: rstrip_def)
    moreover have "rstrip r = []" using all by (rule rstrip_all_space)
    ultimately show ?thesis by simp
  next
    case False
    then have hd: "\<not> is_space (hd ?d)" by (simp add: hd_dropWhile)
    from False hd have nall: "\<not> (\<forall>x\<in>set ?d. is_space x)"
      by (metis hd_in_set)
    have "rstrip r = rstrip (?a @ ?d)" by simp
    also have "\<dots> = ?a @ rstrip ?d" using nall by (simp only: rstrip_append if_False)
    finally have eq: "rstrip r = ?a @ rstrip ?d" .
    obtain c cs where d: "?d = c # cs" using False by (cases ?d) auto
    with hd have c: "\<not> is_space c" by simp
    have "rstrip ?d = rstrip ([c] @ cs)" using d by simp
    also have "\<dots> = (if \<forall>x\<in>set cs. is_space x then rstrip [c] else [c] @ rstrip cs)"
      by (rule rstrip_append)
    also have "\<dots> = c # (if \<forall>x\<in>set cs. is_space x then [] else rstrip cs)"
      using c by (simp add: rstrip_nospace)
    finally have "dropWhile is_space (rstrip ?d) = rstrip ?d" using c by simp
    moreover have "dropWhile is_space (?a @ rstrip ?d) = dropWhile is_space (rstrip ?d)"
      by (rule dropWhile_append2) (auto dest: set_takeWhileD)
    ultimately show ?thesis using eq by simp
  qed
qed

lemma sub_spaces_rstrip_space:
  assumes "r \<noteq> []" "is_space (hd r)" "\<not> (\<forall>x\<in>set r. is_space x)"
  shows "sub_spaces rep (rstrip r) = rep @ sub_spaces rep (strip r)"
proof -
  from assms obtain c cs where rc: "r = c # cs" and c: "is_space c" by (cases r) auto
  from assms(3) rc c have "rstrip r = c # rstrip cs"
    using rstrip_append [of "[c]" cs] by auto
  then have "sub_spaces rep (rstrip r) = rep @ sub_spaces rep (dropWhile is_space (rstrip r))"
    using c by (simp add: sub_spaces_space_hd)
  then show ?thesis by (simp add: dropWhile_rstrip strip_rstrip)
qed

lemma split_ws_unfold:
  "dropWhile is_space s \<noteq> [] \<Longrightarrow>
   split_ws s = takeWhile (\<lambda>c. \<not> is_space c) (dropWhile is_space s)
                # split_ws (dropWhile (\<lambda>c. \<not> is_space c) (dropWhile is_space s))"
  by (subst split_ws.simps) (simp add: Let_def)

lemma split_ws_empty: "dropWhile is_space s = [] \<Longrightarrow> split_ws s = []"
  by (subst split_ws.simps) (simp add: Let_def)

lemma split_ws_Nil_iff: "split_ws s = [] \<longleftrightarrow> (\<forall>x\<in>set s. is_space x)"
  by (subst split_ws.simps) (auto simp: Let_def dropWhile_eq_Nil_conv)

text \<open>
  Replacing the whitespace runs of a stripped string is joining its words: the two
  regular-expression steps of \<open>safe_filename\<close> and of \<open>norm\<close> keep the words and put
  exactly one separator between neighbours.
\<close>

lemma sub_spaces_strip: "sub_spaces rep (strip s) = join rep (split_ws s)"
proof (induction s rule: split_ws.induct)
  case (1 s)
  define t where "t = dropWhile is_space s"
  show ?case
  proof (cases "t = []")
    case True
    then have d: "dropWhile is_space s = []" unfolding t_def .
    have "strip s = []" unfolding strip_def d by simp
    moreover have "split_ws s = []" using d by (rule split_ws_empty)
    ultimately show ?thesis by simp
  next
    case False
    define w where "w = takeWhile (\<lambda>c. \<not> is_space c) t"
    define r where "r = dropWhile (\<lambda>c. \<not> is_space c) t"
    have IH: "sub_spaces rep (strip r) = join rep (split_ws r)"
      using 1 False unfolding t_def r_def by simp
    have t: "t = w @ r" by (simp add: w_def r_def)
    have wns: "\<forall>x\<in>set w. \<not> is_space x" unfolding w_def by (auto dest: set_takeWhileD)
    have sw: "split_ws s = w # split_ws r"
      using False split_ws_unfold [of s] unfolding t_def w_def r_def by simp
    have hdr: "r \<noteq> [] \<Longrightarrow> is_space (hd r)"
      unfolding r_def using hd_dropWhile [of "\<lambda>c. \<not> is_space c" t] by simp
    have "strip s = rstrip t" by (simp add: strip_rstrip t_def)
    also have "\<dots> = w @ rstrip r" unfolding t using wns by (rule rstrip_word_append)
    finally have lhs: "sub_spaces rep (strip s) = w @ sub_spaces rep (rstrip r)"
      using wns by (simp add: sub_spaces_nospace_append)
    show ?thesis
    proof (cases "\<forall>x\<in>set r. is_space x")
      case True
      then have "rstrip r = []" "split_ws r = []"
        by (simp_all add: rstrip_all_space split_ws_Nil_iff)
      then show ?thesis using lhs sw by simp
    next
      case nall: False
      then have rne: "r \<noteq> []" by auto
      with hdr nall have "sub_spaces rep (rstrip r) = rep @ sub_spaces rep (strip r)"
        by (simp add: sub_spaces_rstrip_space)
      with lhs IH have "sub_spaces rep (strip s) = w @ rep @ join rep (split_ws r)" by simp
      moreover from nall have "split_ws r \<noteq> []" by (simp add: split_ws_Nil_iff)
      then obtain x xs where "split_ws r = x # xs" by (cases "split_ws r") auto
      ultimately show ?thesis using sw by simp
    qed
  qed
qed

section \<open>Numeric extraction\<close>



section \<open>Safe file names\<close>

lemma kept_not_space: "is_kept c \<Longrightarrow> \<not> is_space c \<Longrightarrow> is_word c \<or> c \<in> set ''-()[].''"
  by (simp add: is_kept_def is_punct_kept_def)



section \<open>Canonical file names\<close>

lemma of_char_lower_char:
  "(of_char (lower_char c) :: nat) = (if is_upper c then of_char c + 32 else of_char c)"
  by (simp add: lower_char_def is_upper_def Let_def)

lemma of_char_upper_char:
  "(of_char (upper_char c) :: nat) = (if is_lower c then of_char c - 32 else of_char c)"
proof -
  have "(of_char c :: nat) < 256" by simp
  then have "(of_char c :: nat) - 32 < 256" by (rule less_imp_diff_less)
  then have "((of_char c :: nat) - 32) mod 256 = of_char c - 32" by (rule mod_less)
  then show ?thesis by (simp add: upper_char_def)
qed

lemma char_eq_code: "c = d \<longleftrightarrow> (of_char c :: nat) = of_char d"
  by simp

lemma is_space_lower [simp]: "is_space (lower_char c) = is_space c"
  by (auto simp: is_space_def of_char_lower_char is_upper_def Let_def)
lemma is_space_upper [simp]: "is_space (upper_char c) = is_space c"
  by (auto simp: is_space_def of_char_upper_char is_lower_def Let_def)
lemma lower_char_eq_hyphen [simp]: "lower_char c = CHR ''-'' \<longleftrightarrow> c = CHR ''-''"
  by (auto simp: char_eq_code [of _ "CHR ''-''"] of_char_lower_char is_upper_def Let_def)
lemma lower_char_eq_space [simp]: "lower_char c = CHR '' '' \<longleftrightarrow> c = CHR '' ''"
  by (auto simp: char_eq_code [of _ "CHR '' ''"] of_char_lower_char is_upper_def Let_def)
lemma upper_char_eq_space [simp]: "upper_char c = CHR '' '' \<longleftrightarrow> c = CHR '' ''"
  by (auto simp: char_eq_code [of _ "CHR '' ''"] of_char_upper_char is_lower_def Let_def)
lemma upper_lower_char [simp]: "upper_char (lower_char c) = upper_char c"
  by (auto simp: char_eq_code [of "upper_char _"] of_char_upper_char of_char_lower_char is_lower_def is_upper_def Let_def)
lemma lower_lower_char [simp]: "lower_char (lower_char c) = lower_char c"
  by (auto simp: char_eq_code [of "lower_char _"] of_char_lower_char is_upper_def Let_def)

lemma lower_lower [simp]: "lower (lower s) = lower s"
  by (simp add: lower_def)

lemma lower_append [simp]: "lower (a @ b) = lower a @ lower b"
  by (simp add: lower_def)

lemma lower_Nil_iff [simp]: "lower s = [] \<longleftrightarrow> s = []"
  by (simp add: lower_def)

lemma is_space_comp_lower: "is_space \<circ> lower_char = is_space"
  by (rule ext) simp

lemma not_is_space_comp_lower: "(\<lambda>c. \<not> is_space c) \<circ> lower_char = (\<lambda>c. \<not> is_space c)"
  by (rule ext) simp

lemma dropWhile_space_lower: "dropWhile is_space (lower s) = lower (dropWhile is_space s)"
  by (simp add: lower_def dropWhile_map is_space_comp_lower)

lemma dropWhile_nospace_lower:
  "dropWhile (\<lambda>c. \<not> is_space c) (lower s) = lower (dropWhile (\<lambda>c. \<not> is_space c) s)"
  by (simp add: lower_def dropWhile_map not_is_space_comp_lower)

lemma takeWhile_nospace_lower:
  "takeWhile (\<lambda>c. \<not> is_space c) (lower s) = lower (takeWhile (\<lambda>c. \<not> is_space c) s)"
  by (simp add: lower_def takeWhile_map not_is_space_comp_lower)

lemma strip_lower: "strip (lower s) = lower (strip s)"
proof -
  have "rev (lower t) = lower (rev t)" for t by (simp add: lower_def rev_map)
  then show ?thesis by (simp add: strip_def dropWhile_space_lower)
qed

lemma split_ws_lower: "split_ws (lower s) = map lower (split_ws s)"
proof (induction s rule: split_ws.induct)
  case (1 s)
  show ?case
  proof (cases "dropWhile is_space s = []")
    case True
    then have "dropWhile is_space (lower s) = []" by (simp only: dropWhile_space_lower) simp
    then show ?thesis using True by (simp add: split_ws_empty)
  next
    case False
    then have ne: "dropWhile is_space (lower s) \<noteq> []" by (simp only: dropWhile_space_lower) simp
    have IH: "split_ws (lower (dropWhile (\<lambda>c. \<not> is_space c) (dropWhile is_space s)))
        = map lower (split_ws (dropWhile (\<lambda>c. \<not> is_space c) (dropWhile is_space s)))"
      using 1 False by simp
    show ?thesis
      by (simp only: split_ws_unfold [OF ne] split_ws_unfold [OF False] dropWhile_space_lower
          dropWhile_nospace_lower takeWhile_nospace_lower IH list.map)
  qed
qed

lemma join_lower: "lower (join sep xs) = join (lower sep) (map lower xs)"
  by (induction sep xs rule: join.induct) simp_all

lemma split_on_ne [simp]: "split_on c s \<noteq> []"
  by (induction s) (simp_all add: Let_def)

lemma split_on_lower:
  "(\<And>x. lower_char x = c \<longleftrightarrow> x = c) \<Longrightarrow> split_on c (lower s) = map lower (split_on c s)"
proof (induction s)
  case Nil
  show ?case by (simp add: lower_def)
next
  case (Cons x xs)
  then have IH: "split_on c (lower xs) = map lower (split_on c xs)" by simp
  have l: "lower (x # xs) = lower_char x # lower xs" by (simp add: lower_def)
  show ?case
    using Cons.prems [of x] IH 
    by (cases "split_on c xs") (auto simp: l Let_def lower_def)
qed

lemma title_seg_lower: "title_seg (lower seg) = title_seg seg"
  by (cases seg) (simp_all add: title_seg_def lower_def upper_def)

lemma title_word_lower: "title_word i (lower w) = title_word i w"
proof -
  have "map title_seg (split_on CHR ''-'' (lower w)) = map title_seg (split_on CHR ''-'' w)"
    by (simp add: split_on_lower title_seg_lower comp_def)
  then show ?thesis by (simp add: title_word_def)
qed

lemma map_title_enumerate_lower:
  "map (\<lambda>(i, w). title_word i w) (enumerate n (map lower ws))
   = map (\<lambda>(i, w). title_word i w) (enumerate n ws)"
  by (induction ws arbitrary: n) (simp_all add: title_word_lower)


lemma titled_lower: "titled (lower s) = titled s"
  by (simp add: titled_def split_on_lower map_title_enumerate_lower)

lemma build_titled:
  "name \<noteq> [] \<Longrightarrow> build_fandom_gif_file name = Some (titled (join '' '' (split_ws (strip name))) @ ''.gif'')"
  by (simp add: build_fandom_gif_file_def titled_def Let_def)

lemma lower_space_str [simp]: "lower '' '' = '' ''"
  by (simp add: lower_def lower_char_def is_upper_def)

lemma norm_words_lower:
  "lower (join '' '' (split_ws (strip s))) = join '' '' (split_ws (strip (lower s)))"
  by (simp add: join_lower split_ws_lower strip_lower)

lemma stable:
  assumes "a \<noteq> []" "b \<noteq> []" "lower (strip a) = lower (strip b)"
  shows "build_fandom_gif_file a = build_fandom_gif_file b"
proof -
  let ?n = "\<lambda>s. join '' '' (split_ws (strip s))"
  have "lower (?n a) = join '' '' (map lower (split_ws (strip a)))"
    by (simp add: join_lower)
  also have "\<dots> = join '' '' (split_ws (lower (strip a)))" by (simp add: split_ws_lower)
  also have "\<dots> = join '' '' (split_ws (lower (strip b)))" using assms(3) by simp
  also have "\<dots> = join '' '' (map lower (split_ws (strip b)))" by (simp add: split_ws_lower)
  also have "\<dots> = lower (?n b)" by (simp add: join_lower)
  finally have "titled (lower (?n a)) = titled (lower (?n b))" by simp
  then have "titled (?n a) = titled (?n b)" by (simp only: titled_lower)
  with assms(1,2) show ?thesis by (simp add: build_titled)
qed


lemma lower_upper_char [simp]: "lower_char (upper_char c) = lower_char c"
  by (auto simp: char_eq_code [of "lower_char _"] of_char_upper_char of_char_lower_char is_lower_def is_upper_def Let_def)

lemma upper_char_hyphen [simp]: "upper_char CHR ''-'' = CHR ''-''"
  by (simp add: upper_char_def is_lower_def)

lemma lower_title_seg: "lower (title_seg seg) = lower seg"
proof (cases seg)
  case Nil
  then show ?thesis by (simp add: title_seg_def)
next
  case (Cons c cs)
  then show ?thesis by (simp add: title_seg_def lower_def upper_def)
qed

lemma join_split_on: "join [c] (split_on c s) = s"
proof (induction s)
  case Nil
  show ?case by simp
next
  case (Cons x xs)
  obtain p ps where r: "split_on c xs = p # ps"
    using split_on_ne [of c xs] by (cases "split_on c xs") auto
  with Cons show ?case by (cases ps) (auto simp: Let_def)
qed

lemma lower_hyphen_str [simp]: "lower ''-'' = ''-''"
  by (simp add: lower_def lower_char_def is_upper_def)

lemma lower_titled_word:
  "lower (join ''-'' (map title_seg (split_on CHR ''-'' w))) = lower w"
proof -
  have "lower (join ''-'' (map title_seg (split_on CHR ''-'' w)))
      = join ''-'' (map lower (split_on CHR ''-'' w))"
    by (simp add: join_lower comp_def lower_title_seg)
  also have "\<dots> = lower (join ''-'' (split_on CHR ''-'' w))" by (simp add: join_lower)
  also have "\<dots> = lower w" by (simp only: join_split_on)
  finally show ?thesis .
qed

lemma title_word_function_word:
  "title_word i w =
     (if 0 < i \<and> lower w \<in> set LOWER then lower w
      else join ''-'' (map title_seg (split_on CHR ''-'' w)))"
  by (simp add: title_word_def Let_def lower_titled_word)

lemma hd_join: "x \<noteq> [] \<Longrightarrow> hd (join sep (x # xs)) = hd x"
  by (cases xs) simp_all

lemma join_ne: "x \<noteq> [] \<Longrightarrow> join sep (x # xs) \<noteq> []"
  by (cases xs) simp_all

lemma title_word_first: "title_word 0 (c # u) \<noteq> [] \<and> hd (title_word 0 (c # u)) = upper_char c"
proof -
  obtain p ps where r: "split_on CHR ''-'' u = p # ps"
    using split_on_ne [of "CHR ''-''" u] by (cases "split_on CHR ''-'' u") auto
  show ?thesis
  proof (cases "c = CHR ''-''")
    case True
    then have "title_word 0 (c # u) = join ''-'' ([] # title_seg p # map title_seg ps)"
      using r by (simp add: title_word_def Let_def title_seg_def)
    then show ?thesis using True by simp
  next
    case False
    then have "title_word 0 (c # u) = join ''-'' (title_seg (c # p) # map title_seg ps)"
      using r by (simp add: title_word_def Let_def)
    moreover have "title_seg (c # p) = upper_char c # lower p"
      by (simp add: title_seg_def upper_def)
    ultimately show ?thesis by (simp add: hd_join join_ne)
  qed
qed

lemma titled_first:
  assumes "c \<noteq> CHR '' ''"
  shows "titled (c # n) \<noteq> [] \<and> hd (titled (c # n)) = upper_char c"
proof -
  obtain p ps where r: "split_on CHR '' '' n = p # ps"
    using split_on_ne [of "CHR '' ''" n] by (cases "split_on CHR '' '' n") auto
  let ?rest = "map (\<lambda>(i, w). title_word i w) (enumerate (Suc 0) ps)"
  have "titled (c # n) = replace_char CHR '' '' CHR ''_'' (join '' '' (title_word 0 (c # p) # ?rest))"
    using assms r by (simp add: titled_def Let_def)
  moreover have "join '' '' (title_word 0 (c # p) # ?rest) \<noteq> []"
    "hd (join '' '' (title_word 0 (c # p) # ?rest)) = upper_char c"
    using title_word_first [of c p] by (simp_all add: hd_join join_ne)
  ultimately show ?thesis using assms by (simp add: replace_char_def hd_map)
qed

lemma strip_Cons_hd: "strip s \<noteq> [] \<Longrightarrow> \<not> is_space (hd (strip s))"
proof -
  assume ne: "strip s \<noteq> []"
  let ?d = "dropWhile is_space s"
  have dne: "?d \<noteq> []"
  proof
    assume d0: "?d = []"
    have "strip s = []" unfolding strip_def d0 by simp
    with ne show False by simp
  qed
  then obtain c cs where d: "?d = c # cs" by (cases ?d) auto
  from dne have "\<not> is_space (hd ?d)" by (rule hd_dropWhile)
  with d have c: "\<not> is_space c" by simp
  have "strip s = rstrip ([c] @ cs)" using d by (simp add: strip_rstrip)
  also have "\<dots> = c # (if \<forall>x\<in>set cs. is_space x then [] else rstrip cs)"
    using c by (simp only: rstrip_append) (simp add: rstrip_nospace)
  finally show ?thesis using c by simp
qed

lemma hd_norm_words:
  assumes "strip s \<noteq> []"
  shows "\<exists>n. join '' '' (split_ws (strip s)) = hd (strip s) # n"
proof -
  let ?t = "strip s"
  from assms obtain c cs where t: "?t = c # cs" by (cases ?t) auto
  with strip_Cons_hd [OF assms] have c: "\<not> is_space c" by simp
  then have d: "dropWhile is_space ?t = ?t" using t by simp
  with assms have ne: "dropWhile is_space ?t \<noteq> []" by simp
  have "split_ws ?t = takeWhile (\<lambda>c. \<not> is_space c) ?t # split_ws (dropWhile (\<lambda>c. \<not> is_space c) ?t)"
    using split_ws_unfold [OF ne] by (simp only: d)
  also have "takeWhile (\<lambda>c. \<not> is_space c) ?t = c # takeWhile (\<lambda>c. \<not> is_space c) cs"
    using t c by simp
  finally obtain ws where "split_ws ?t = (c # takeWhile (\<lambda>c. \<not> is_space c) cs) # ws" by blast
  then have "join '' '' (split_ws ?t) = c # tl (join '' '' (split_ws ?t))"
    by (cases ws) simp_all
  with t show ?thesis by auto
qed



section \<open>Locating the achievements table\<close>

lemma find_achievements_table_in_find:
  "find_achievements_table_in ts =
     (case List.find accepts ts of
        None \<Rightarrow> None
      | Some t \<Rightarrow> (case first_row_headers t of None \<Rightarrow> None | Some hs \<Rightarrow> Some (t, hs)))"
  by (induction ts)
     (auto simp: accepts_def first_row_headers_def REQUIRED_def Let_def split: option.splits)

lemma norm_case: "lower s = lower t \<Longrightarrow> norm s = norm t"
proof -
  assume "lower s = lower t"
  then have "lower (strip s) = lower (strip t)" by (simp add: strip_lower [symmetric])
  then show ?thesis by (simp add: norm_def)
qed




section \<open>Rows: the guard on the cells and the derived name\<close>

lemma achievements_row_skipped:
  "fst (achievements_row cols table p) = Skipped
   \<longleftrightarrow> length (row_cells table p) \<le> max_required cols"
  by (auto simp: achievements_row_def Let_def split: prod.splits option.splits)

lemma outfits_row_skipped:
  "outfits_row female_idx seen tr = OSkipped
   \<longleftrightarrow> length (find_all [''td'', ''th''] tr) \<le> female_idx"
  by (auto simp: outfits_row_def Let_def split: option.splits)

lemma achievements_row_name:
  assumes "max_required cols < length (row_cells table p)"
  shows "(achievements_name cols table p = [] \<longrightarrow> fst (achievements_row cols table p) = Dropped)
     \<and> (achievements_name cols table p \<noteq> [] \<longrightarrow>
          (\<exists>it. fst (achievements_row cols table p) = Item it
               \<and> a_name it = achievements_name cols table p))"
  using assms
  by (auto simp: achievements_row_def achievements_name_def cell_text_at_def Let_def
           split: prod.splits option.splits)

lemma outfits_row_name:
  assumes "female_idx < length (find_all [''td'', ''th''] tr)"
  shows "(outfits_name tr = [] \<longleftrightarrow> outfits_row female_idx seen tr = ODropped)
     \<and> (\<forall>n u. outfits_row female_idx seen tr = OFound n u \<longrightarrow> n = outfits_name tr \<and> n \<noteq> [])"
  using assms
  by (auto simp: outfits_row_def outfits_name_def Let_def split: option.splits if_splits)

lemma achievements_loop_names:
  "\<forall>it\<in>set (achievements_loop cols table ps). a_name it \<noteq> []"
proof (induction ps arbitrary: table)
  case Nil
  show ?case by simp
next
  case (Cons p ps)
  obtain r t where rt: "achievements_row cols table p = (r, t)"
    by (cases "achievements_row cols table p")
  show ?case
  proof (cases r)
    case (Item it)
    have "max_required cols < length (row_cells table p)"
      using achievements_row_skipped [of cols table p] rt Item by auto
    from achievements_row_name [OF this] rt Item have "a_name it \<noteq> []"
      by (cases "achievements_name cols table p = []") auto
    with Cons rt Item show ?thesis by simp
  qed (use Cons rt in simp_all)
qed

lemma outfits_rows_names:
  "\<forall>(n, u)\<in>set (outfits_rows female_idx passed seen rows). n \<noteq> [] \<and> u \<noteq> []"
proof (induction rows arbitrary: passed seen)
  case Nil
  show ?case by simp
next
  case (Cons tr rows)
  show ?case
  proof (cases passed)
    case False
    with Cons show ?thesis by simp
  next
    case True
    show ?thesis
    proof (cases "outfits_row female_idx seen tr")
      case (OFound n u)
      then have "n \<noteq> [] \<and> u \<noteq> []"
        by (auto simp: outfits_row_def Let_def split: option.splits if_splits)
      with Cons True OFound show ?thesis by simp
    qed (use Cons True in simp_all)
  qed
qed



text \<open>
  C8, as the code has it. A data row is skipped by the guard exactly when the number of
  its cells is at most the largest required column index, that is, when it has fewer
  cells than that index plus one; every row with more cells than that index goes on to
  the extraction of the name. For the achievements the index is the largest of the four
  required columns, for the outfits the index of the female addons column.
\<close>

theorem row_skipped_threshold:
  "(fst (achievements_row cols table p) = Skipped
      \<longleftrightarrow> length (row_cells table p) \<le> max_required cols)
   \<and> (outfits_row female_idx seen tr = OSkipped
      \<longleftrightarrow> length (find_all [''td'', ''th''] tr) \<le> female_idx)"
  using achievements_row_skipped outfits_row_skipped by blast

theorem row_skipped_threshold_witness:
  "length (row_cells example_table [4]) = 4 \<and> max_required example_cols = 3
   \<and> fst (achievements_row example_cols example_table [4]) \<noteq> Skipped
   \<and> length (find_all [''td'', ''th''] (node_at example_outfits [6])) = 2
   \<and> outfits_row 2 [] (node_at example_outfits [6]) = OSkipped"
proof -
  have l4: "length (row_cells example_table [4]) = 4" by code_simp
  have m: "max_required example_cols = 3" by code_simp
  have l6: "length (find_all [''td'', ''th''] (node_at example_outfits [6])) = 2" by code_simp
  note t = row_skipped_threshold [of example_cols example_table "[4]" 2 "[]"
      "node_at example_outfits [6]"]
  from t [THEN conjunct1] l4 m
  have a: "fst (achievements_row example_cols example_table [4]) \<noteq> Skipped" by simp
  from t [THEN conjunct2] l6
  have b: "outfits_row 2 [] (node_at example_outfits [6]) = OSkipped" by simp
  from l4 m a l6 b show ?thesis by (intro conjI)
qed

text \<open>
  The claim as the specification states it puts the threshold one lower: the last row
  of the example has three cells, which is not fewer than the largest required index 3,
  and it is skipped.
\<close>

theorem row_skipped_threshold_counterexample:
  "length (row_cells example_table [5]) = 3 \<and> max_required example_cols = 3
   \<and> \<not> length (row_cells example_table [5]) < max_required example_cols
   \<and> fst (achievements_row example_cols example_table [5]) = Skipped"
  by code_simp

section \<open>Fetching a page\<close>

text \<open>
  C9, as the code has it. When the primary request is answered with status 403, the
  page title is derived from the path of the address and the parse request for that
  title decides: its text, when there is one, is returned; when the reply carries no
  text, the fetch fails with a runtime error whose message carries the title; what is
  returned on this path is never empty and is always the text of the parse reply. When
  the primary request is answered with another status, the fallback is not tried: an
  error status raises, and otherwise the body is returned as it is.
\<close>

theorem fetch_html_fallback:
  assumes "http_get w url = Some r"
  shows "(status r = 403 \<longrightarrow>
            (\<forall>st html. api_parse w (page_title w url) = Some (st, Some html)
                \<and> \<not> is_error_status st \<and> html \<noteq> []
              \<longrightarrow> fetch_html w url = Inr html)
          \<and> (\<forall>st. api_parse w (page_title w url) = Some (st, Some [])
                \<and> \<not> is_error_status st
              \<longrightarrow> fetch_html w url = Inl (RuntimeError (no_html_message (page_title w url))))
          \<and> fetch_html w url \<noteq> Inr []
          \<and> (\<forall>html. fetch_html w url = Inr html
              \<longrightarrow> (\<exists>st. api_parse w (page_title w url) = Some (st, Some html))))
    \<and> (status r \<noteq> 403 \<longrightarrow>
          fetch_html w url
            = (if is_error_status (status r) then Inl (HTTPError (status r)) else Inr (body r)))"
  using assms
  by (auto simp: fetch_html_def Let_def split: option.splits if_splits)

theorem fetch_html_fallback_witness:
  "map_option status (http_get example_world ''https://www.tibiawiki.com.br/wiki/Bosses'') = Some 403
   \<and> page_title example_world ''https://www.tibiawiki.com.br/wiki/Bosses'' = ''Bosses''
   \<and> api_parse example_world ''Bosses'' = Some (200, Some ''<table>bosses</table>'')
   \<and> fetch_html example_world ''https://www.tibiawiki.com.br/wiki/Bosses''
       = Inr ''<table>bosses</table>''
   \<and> api_parse example_world ''Nothing'' = Some (200, Some [])
   \<and> fetch_html example_world ''https://www.tibiawiki.com.br/wiki/Nothing''
       = Inl (RuntimeError (no_html_message ''Nothing''))"
proof -
  let ?denied = "\<lparr>status = 403, content_type = ''text/html'', body = ''Forbidden'', complete = True\<rparr>"
  have g: "http_get example_world ''https://www.tibiawiki.com.br/wiki/Bosses'' = Some ?denied"
    by (simp add: example_world_def)
  have g': "http_get example_world ''https://www.tibiawiki.com.br/wiki/Nothing'' = Some ?denied"
    by (simp add: example_world_def)
  have s: "status ?denied = 403" by simp
  have t: "page_title example_world ''https://www.tibiawiki.com.br/wiki/Bosses'' = ''Bosses''"
    by code_simp
  have t': "page_title example_world ''https://www.tibiawiki.com.br/wiki/Nothing'' = ''Nothing''"
    by code_simp
  have a: "api_parse example_world ''Bosses'' = Some (200, Some ''<table>bosses</table>'')"
    by (simp add: example_world_def)
  have a': "api_parse example_world ''Nothing'' = Some (200, Some [])"
    by (simp add: example_world_def)
  have ok: "\<not> is_error_status 200" by (simp add: is_error_status_def)
  note f = fetch_html_fallback [OF g, THEN conjunct1, rule_format, OF s]
  from f [THEN conjunct1, rule_format, of 200 "''<table>bosses</table>''"] a ok
  have r1: "fetch_html example_world ''https://www.tibiawiki.com.br/wiki/Bosses''
       = Inr ''<table>bosses</table>''"
    by (simp add: t)
  note f' = fetch_html_fallback [OF g', THEN conjunct1, rule_format, OF s]
  from f' [THEN conjunct2, THEN conjunct1, rule_format, of 200] a' ok
  have r2: "fetch_html example_world ''https://www.tibiawiki.com.br/wiki/Nothing''
       = Inl (RuntimeError (no_html_message ''Nothing''))"
    by (simp add: t')
  from g have g0: "map_option status
      (http_get example_world ''https://www.tibiawiki.com.br/wiki/Bosses'') = Some 403"
    by simp
  from g0 t a r1 a' r2 show ?thesis by (intro conjI)
qed

text \<open>
  The claim as the specification states it fails where the primary request is answered
  with status 200 and an empty body: neither path yields HTML, and the fetch returns
  the empty text instead of failing.
\<close>

theorem fetch_html_counterexample:
  "map_option status (http_get example_world ''https://www.tibiawiki.com.br/wiki/Empty'') = Some 200
   \<and> map_option body (http_get example_world ''https://www.tibiawiki.com.br/wiki/Empty'') = Some []
   \<and> fetch_html example_world ''https://www.tibiawiki.com.br/wiki/Empty'' = Inr []"
  by code_simp

section \<open>The index of a TibiaWiki run\<close>

lemma add_pairs_append: "add_pairs index (a @ b) = add_pairs (add_pairs index a) b"
  by (induction index a rule: add_pairs.induct) (auto split: option.splits)

lemma fetch_pages_all_pairs:
  "fetch_pages w index urls = Inr idx \<Longrightarrow> idx = add_pairs index (all_pairs w urls)"
proof (induction urls arbitrary: index)
  case Nil
  then show ?case by (simp add: all_pairs_def)
next
  case (Cons url urls)
  then obtain html where h: "fetch_html w url = Inr html"
    by (cases "fetch_html w url") auto
  with Cons.prems have "fetch_pages w (add_pairs index (extract_name_and_wiki_file w html)) urls = Inr idx"
    by simp
  from Cons.IH [OF this] h show ?case
    by (simp add: all_pairs_def add_pairs_append)
qed

lemma add_pairs_distinct:
  "distinct (map fst index) \<Longrightarrow> distinct (map fst (add_pairs index pairs))"
  by (induction index pairs rule: add_pairs.induct) (auto split: option.splits)

lemma add_pairs_map_of:
  "map_of (add_pairs index pairs) n =
     (case map_of index n of
        Some r \<Rightarrow> Some r
      | None \<Rightarrow>
          (case map_of pairs n of
             None \<Rightarrow> None
           | Some wiki \<Rightarrow> map_option (\<lambda>f. new_row n f wiki) (build_fandom_gif_file n)))"
proof (induction index pairs rule: add_pairs.induct)
  case (1 index)
  show ?case by (simp split: option.splits)
next
  case (2 index name wiki_file pairs)
  show ?case
  proof (cases "name \<in> set (map fst index)")
    case True
    then have "map_of index name \<noteq> None" by (simp add: map_of_eq_None_iff)
    with True 2 show ?thesis by (auto split: option.splits)
  next
    case False
    then have none: "map_of index name = None" by (simp add: map_of_eq_None_iff)
    show ?thesis
    proof (cases "build_fandom_gif_file name")
      case None
      with False 2 none show ?thesis by (auto split: option.splits)
    next
      case (Some f)
      with False 2 none show ?thesis
        by (auto simp: map_add_def split: option.splits)
    qed
  qed
qed


lemma mirror_step_index:
  "m_index (mirror_step w m entry src) =
     set_source_url (fst entry) (case src of None \<Rightarrow> [] | Some u \<Rightarrow> u) (m_index m)"
  by (cases entry) (simp add: mirror_step_def Let_def split: prod.splits)

lemma resolved_of_lookup:
  "mw_original_image_url w (r_source_wiki_file r) = Inr src \<Longrightarrow>
   resolved w r = (case src of None \<Rightarrow> [] | Some u \<Rightarrow> u)"
  by (simp add: resolved_def split: option.splits)

lemma mirror_rows_index:
  "mirror_rows w m rows = Inr m' \<Longrightarrow>
   m_index m' = foldl (\<lambda>i e. set_source_url (fst e) (resolved w (snd e)) i) (m_index m) rows"
proof (induction rows arbitrary: m)
  case Nil
  then show ?case by simp
next
  case (Cons entry rows)
  then obtain src where l: "mw_original_image_url w (r_source_wiki_file (snd entry)) = Inr src"
    by (cases "mw_original_image_url w (r_source_wiki_file (snd entry))") auto
  with Cons.prems have "mirror_rows w (mirror_step w m entry src) rows = Inr m'" by simp
  from Cons.IH [OF this] show ?case
    by (simp add: mirror_step_index resolved_of_lookup [OF l])
qed

lemma set_source_url_keys [simp]: "map fst (set_source_url n u index) = map fst index"
  by (induction index) (auto simp: set_source_url_def)

lemma fold_source_urls:
  assumes "distinct (map fst index)"
  shows "distinct (map fst rows) \<Longrightarrow> set rows \<subseteq> set index \<Longrightarrow>
    foldl (\<lambda>i e. set_source_url (fst e) (resolved w (snd e)) i) index rows
    = map (\<lambda>(k, r). if (k, r) \<in> set rows then (k, r\<lparr>r_source_url := resolved w r\<rparr>) else (k, r))
        index"
proof (induction rows rule: rev_induct)
  case Nil
  show ?case by (simp add: case_prod_unfold)
next
  case (snoc x rows)
  obtain n r where x: "x = (n, r)" by (cases x)
  from snoc.prems have d: "distinct (map fst rows)" and sub: "set rows \<subseteq> set index"
    and nin: "n \<notin> fst ` set rows" and xin: "(n, r) \<in> set index"
    by (auto simp: x)
  have IH: "foldl (\<lambda>i e. set_source_url (fst e) (resolved w (snd e)) i) index rows
    = map (\<lambda>(k, r). if (k, r) \<in> set rows then (k, r\<lparr>r_source_url := resolved w r\<rparr>) else (k, r))
        index"
    using snoc.IH [OF d sub] .
  have "set_source_url n (resolved w r)
          (map (\<lambda>(k, r). if (k, r) \<in> set rows then (k, r\<lparr>r_source_url := resolved w r\<rparr>)
                           else (k, r)) index)
      = map (\<lambda>(k, r'). if (k, r') \<in> set (rows @ [(n, r)])
                          then (k, r'\<lparr>r_source_url := resolved w r'\<rparr>) else (k, r')) index"
    unfolding set_source_url_def map_map
  proof (rule map_cong [OF refl])
    fix e assume e: "e \<in> set index"
    obtain k r' where kr: "e = (k, r')" by (cases e)
    show "((\<lambda>(k, r'). if k = n then (k, r'\<lparr>r_source_url := resolved w r\<rparr>) else (k, r')) \<circ>
           (\<lambda>(k, r). if (k, r) \<in> set rows then (k, r\<lparr>r_source_url := resolved w r\<rparr>)
                       else (k, r))) e
        = (case e of (k, r') \<Rightarrow> if (k, r') \<in> set (rows @ [(n, r)])
                          then (k, r'\<lparr>r_source_url := resolved w r'\<rparr>) else (k, r'))"
    proof (cases "k = n")
      case True
      with e kr xin assms have "r' = r"
        by (metis eq_key_imp_eq_value)
      moreover from True nin have "(k, r') \<notin> set rows" by force
      ultimately show ?thesis using True kr by simp
    next
      case False
      then show ?thesis using kr by auto
    qed
  qed
  with IH show ?case by (simp add: x)
qed

lemma distinct_keys_sort:
  "distinct (map fst index) \<Longrightarrow> distinct (map fst (sort_key f index))"
  by (simp add: distinct_map)

lemma mirror_rows_fill:
  assumes "distinct (map fst (m_index m))"
    and "mirror_rows w m (sort_key f (m_index m)) = Inr m'"
  shows "m_index m' = fill_urls w (m_index m)"
proof -
  have "m_index m' = foldl (\<lambda>i e. set_source_url (fst e) (resolved w (snd e)) i) (m_index m)
      (sort_key f (m_index m))"
    using assms(2) by (rule mirror_rows_index)
  also have "\<dots> = map (\<lambda>(k, r). if (k, r) \<in> set (sort_key f (m_index m))
        then (k, r\<lparr>r_source_url := resolved w r\<rparr>) else (k, r)) (m_index m)"
    using assms(1) by (intro fold_source_urls distinct_keys_sort) simp_all
  also have "\<dots> = fill_urls w (m_index m)"
    unfolding fill_urls_def by (rule map_cong) auto
  finally show ?thesis .
qed

lemma run_group_index:
  assumes "run_group w fs urls = Inr m"
  shows "m_index m = fill_urls w (add_pairs [] (all_pairs w urls))"
proof -
  from assms obtain index where f: "fetch_pages w [] urls = Inr index"
    by (cases "fetch_pages w [] urls") (auto simp: run_group_def)
  then have i: "index = add_pairs [] (all_pairs w urls)" by (rule fetch_pages_all_pairs)
  then have d: "distinct (map fst index)" using add_pairs_distinct [of "[]"] by simp
  let ?m0 = "\<lparr>m_index = index, m_files = fs, m_fetched = [], m_downloaded = 0, m_skipped = 0\<rparr>"
  from assms f have "mirror_rows w ?m0 (sort_key (\<lambda>(name, row). lower name) (m_index ?m0)) = Inr m"
    by (simp add: run_group_def)
  from mirror_rows_fill [OF _ this] d i show ?thesis by simp
qed

lemma fetch_pages_ok:
  "(\<exists>idx. fetch_pages w index urls = Inr idx) \<longleftrightarrow> (\<forall>url\<in>set urls. \<exists>h. fetch_html w url = Inr h)"
proof (induction urls arbitrary: index)
  case Nil
  show ?case by simp
next
  case (Cons url urls)
  show ?case
  proof (cases "fetch_html w url")
    case (Inl e)
    then show ?thesis by auto
  next
    case (Inr h)
    with Cons [of "add_pairs index (extract_name_and_wiki_file w h)"] show ?thesis by simp
  qed
qed

lemma mirror_rows_ok:
  "(\<exists>m'. mirror_rows w m rows = Inr m')
   \<longleftrightarrow> (\<forall>e\<in>set rows. \<exists>s. mw_original_image_url w (r_source_wiki_file (snd e)) = Inr s)"
proof (induction rows arbitrary: m)
  case Nil
  show ?case by simp
next
  case (Cons entry rows)
  show ?case
  proof (cases "mw_original_image_url w (r_source_wiki_file (snd entry))")
    case (Inl e)
    then show ?thesis by auto
  next
    case (Inr s)
    with Cons [of "mirror_step w m entry s"] show ?thesis by simp
  qed
qed

lemma run_group_ok:
  "(\<exists>m. run_group w fs urls = Inr m)
   \<longleftrightarrow> (\<forall>url\<in>set urls. \<exists>h. fetch_html w url = Inr h)
       \<and> (\<forall>e\<in>set (add_pairs [] (all_pairs w urls)).
             \<exists>s. mw_original_image_url w (r_source_wiki_file (snd e)) = Inr s)"
proof (cases "fetch_pages w [] urls")
  case (Inl e)
  then have "\<not> (\<exists>idx. fetch_pages w [] urls = Inr idx)" by simp
  then have "\<not> (\<forall>url\<in>set urls. \<exists>h. fetch_html w url = Inr h)"
    using fetch_pages_ok [of w "[]" urls] by blast
  with Inl show ?thesis by (auto simp: run_group_def)
next
  case (Inr index)
  then have i: "index = add_pairs [] (all_pairs w urls)" by (rule fetch_pages_all_pairs)
  from Inr have "\<exists>idx. fetch_pages w [] urls = Inr idx" by blast
  then have all: "\<forall>url\<in>set urls. \<exists>h. fetch_html w url = Inr h"
    using fetch_pages_ok [of w "[]" urls] by blast
  let ?m0 = "\<lparr>m_index = index, m_files = fs, m_fetched = [], m_downloaded = 0, m_skipped = 0\<rparr>"
  have "(\<exists>m. run_group w fs urls = Inr m)
      \<longleftrightarrow> (\<exists>m. mirror_rows w ?m0 (sort_key (\<lambda>(name, row). lower name) index) = Inr m)"
    using Inr by (simp add: run_group_def)
  also have "\<dots> \<longleftrightarrow> (\<forall>e\<in>set index. \<exists>s. mw_original_image_url w (r_source_wiki_file (snd e)) = Inr s)"
    using mirror_rows_ok [of w ?m0 "sort_key (\<lambda>(name, row). lower name) index"] by simp
  finally show ?thesis using all i by simp
qed

section \<open>The outfits: one result for a name\<close>

lemma outfits_row_alt:
  "outfits_row fi seen tr =
     (if length (find_all [''td'', ''th''] tr) \<le> fi then OSkipped
      else if outfits_name tr = [] then ODropped
      else if lower (outfits_name tr) \<in> set seen then OSeen
      else (case pick_image_url_from_cell (find_all [''td'', ''th''] tr ! fi) of
              None \<Rightarrow> ONoImage
            | Some u \<Rightarrow> if u = [] then ONoImage else OFound (outfits_name tr) u))"
  by (cases "pick_image_url_from_cell (find_all [''td'', ''th''] tr ! fi)")
     (simp_all add: outfits_row_def outfits_name_def Let_def)

lemma outfits_row_seen:
  "outfits_row fi seen tr = OFound n u
   \<longleftrightarrow> outfits_row fi [] tr = OFound n u \<and> lower n \<notin> set seen"
  unfolding outfits_row_alt [of fi seen] outfits_row_alt [of fi "[]"]
  by (cases "pick_image_url_from_cell (find_all [''td'', ''th''] tr ! fi)") auto

lemma outfits_rows_header:
  "outfits_rows fi False seen (tr # rows) = outfits_rows fi (is_header_row tr) seen rows"
  by (simp only: outfits_rows.simps simp_thms if_True)

lemma outfits_rows_found:
  "outfits_row fi seen tr = OFound n u \<Longrightarrow>
   outfits_rows fi True seen (tr # rows) = (n, u) # outfits_rows fi True (lower n # seen) rows"
  by (simp only: outfits_rows.simps outfit_result.case simp_thms if_False)

lemma outfits_rows_other:
  "\<not> (\<exists>n u. outfits_row fi seen tr = OFound n u) \<Longrightarrow>
   outfits_rows fi True seen (tr # rows) = outfits_rows fi True seen rows"
  by (cases "outfits_row fi seen tr")
     (simp_all only: outfits_rows.simps outfit_result.case simp_thms if_False, blast)

lemma outfit_candidates_header:
  "outfit_candidates fi False (tr # rows) = outfit_candidates fi (is_header_row tr) rows"
  by (simp only: outfit_candidates.simps simp_thms if_True)

lemma outfit_candidates_found:
  "outfits_row fi [] tr = OFound n u \<Longrightarrow>
   outfit_candidates fi True (tr # rows) = (n, u) # outfit_candidates fi True rows"
  by (simp only: outfit_candidates.simps outfit_result.case simp_thms if_False)

lemma outfit_candidates_other:
  "\<not> (\<exists>n u. outfits_row fi [] tr = OFound n u) \<Longrightarrow>
   outfit_candidates fi True (tr # rows) = outfit_candidates fi True rows"
  by (cases "outfits_row fi [] tr")
     (simp_all only: outfit_candidates.simps outfit_result.case simp_thms if_False, blast)

lemma outfits_rows_keys:
  "distinct (map (\<lambda>x. lower (fst x)) (outfits_rows fi passed seen rows))
   \<and> (\<forall>x\<in>set (outfits_rows fi passed seen rows). lower (fst x) \<notin> set seen)"
proof (induction rows arbitrary: passed seen)
  case Nil
  show ?case by simp
next
  case (Cons tr rows)
  show ?case
  proof (cases passed)
    case False
    then have p: "passed = False" by simp
    from Cons [of "is_header_row tr" seen] show ?thesis
      unfolding p outfits_rows_header .
  next
    case True
    then have p: "passed = True" by simp
    show ?thesis
    proof (cases "\<exists>n u. outfits_row fi seen tr = OFound n u")
      case found: True
      then obtain n u where f: "outfits_row fi seen tr = OFound n u" by blast
      then have ns: "lower n \<notin> set seen"
        using outfits_row_seen [of fi seen tr n u] by blast
      have step: "outfits_rows fi passed seen (tr # rows)
          = (n, u) # outfits_rows fi True (lower n # seen) rows"
        unfolding p using f by (rule outfits_rows_found)
      from Cons [of True "lower n # seen"]
      have d: "distinct (map (\<lambda>x. lower (fst x)) (outfits_rows fi True (lower n # seen) rows))"
        and s: "\<forall>x\<in>set (outfits_rows fi True (lower n # seen) rows).
                 lower (fst x) \<notin> set (lower n # seen)"
        by blast+
      from s have s1: "\<forall>x\<in>set (outfits_rows fi True (lower n # seen) rows). lower (fst x) \<noteq> lower n"
        and s2: "\<forall>x\<in>set (outfits_rows fi True (lower n # seen) rows). lower (fst x) \<notin> set seen"
        by auto
      from s1 have "lower n \<notin> (\<lambda>x. lower (fst x)) ` set (outfits_rows fi True (lower n # seen) rows)"
        by force
      with d s2 ns show ?thesis unfolding step by simp
    next
      case False
      then have "outfits_rows fi passed seen (tr # rows) = outfits_rows fi True seen rows"
        unfolding p by (rule outfits_rows_other)
      with Cons [of True seen] show ?thesis by simp
    qed
  qed
qed

lemma by_key_Cons: "by_key ((n, u) # rs) = (lower n, n, u) # by_key rs"
  by (simp add: by_key_def)

lemma outfits_rows_first:
  "map_of (by_key (outfits_rows fi passed seen rows)) k
   = (if k \<in> set seen then None else map_of (by_key (outfit_candidates fi passed rows)) k)"
proof (induction rows arbitrary: passed seen)
  case Nil
  show ?case by (simp add: by_key_def)
next
  case (Cons tr rows)
  show ?case
  proof (cases passed)
    case False
    then have p: "passed = False" by simp
    show ?thesis
      unfolding p outfits_rows_header outfit_candidates_header by (rule Cons)
  next
    case True
    then have p: "passed = True" by simp
    show ?thesis
    proof (cases "\<exists>n u. outfits_row fi [] tr = OFound n u")
      case cand: True
      then obtain n u where c: "outfits_row fi [] tr = OFound n u" by blast
      have cs: "outfit_candidates fi passed (tr # rows) = (n, u) # outfit_candidates fi True rows"
        unfolding p using c by (rule outfit_candidates_found)
      show ?thesis
      proof (cases "lower n \<in> set seen")
        case in_seen: True
        have "\<not> (\<exists>n' u'. outfits_row fi seen tr = OFound n' u')"
        proof
          assume "\<exists>n' u'. outfits_row fi seen tr = OFound n' u'"
          then obtain n' u' where f: "outfits_row fi seen tr = OFound n' u'" by blast
          then have f0: "outfits_row fi [] tr = OFound n' u'" and ns: "lower n' \<notin> set seen"
            using outfits_row_seen [of fi seen tr n' u'] by blast+
          from f0 c have "n' = n" by simp
          with ns in_seen show False by simp
        qed
        then have rs: "outfits_rows fi passed seen (tr # rows) = outfits_rows fi True seen rows"
          unfolding p by (rule outfits_rows_other)
        show ?thesis
          unfolding rs cs by_key_Cons Cons [of True seen] using in_seen by auto
      next
        case not_seen: False
        then have "outfits_row fi seen tr = OFound n u"
          using c outfits_row_seen [of fi seen tr n u] by blast
        then have rs: "outfits_rows fi passed seen (tr # rows)
            = (n, u) # outfits_rows fi True (lower n # seen) rows"
          unfolding p by (rule outfits_rows_found)
        show ?thesis
          unfolding rs cs by_key_Cons using Cons [of True "lower n # seen"] not_seen by auto
      qed
    next
      case no_cand: False
      have "\<not> (\<exists>n' u'. outfits_row fi seen tr = OFound n' u')"
      proof
        assume "\<exists>n' u'. outfits_row fi seen tr = OFound n' u'"
        then obtain n' u' where f: "outfits_row fi seen tr = OFound n' u'" by blast
        then have "outfits_row fi [] tr = OFound n' u'"
          using outfits_row_seen [of fi seen tr n' u'] by blast
        with no_cand show False by blast
      qed
      then have rs: "outfits_rows fi passed seen (tr # rows) = outfits_rows fi True seen rows"
        unfolding p by (rule outfits_rows_other)
      from no_cand have cs: "outfit_candidates fi passed (tr # rows) = outfit_candidates fi True rows"
        unfolding p by (rule outfit_candidates_other)
      show ?thesis unfolding rs cs by (rule Cons)
    qed
  qed
qed

lemma mirror_image_items:
  "fst (mirror_image w fs name u) = [] \<or> (\<exists>it. fst (mirror_image w fs name u) = [it] \<and> i_name it = name)"
  by (auto simp: mirror_image_def Let_def split: option.splits prod.splits)

lemma outfits_loop_Cons:
  "fst (outfits_loop w fs ((name, u) # results))
   = fst (mirror_image w fs name u)
     @ fst (outfits_loop w (snd (snd (mirror_image w fs name u))) results)"
  by (simp add: Let_def split: prod.splits)

lemma outfits_loop_names:
  "i_name ` set (fst (outfits_loop w fs results)) \<subseteq> fst ` set results"
proof (induction results arbitrary: fs)
  case Nil
  show ?case by simp
next
  case (Cons x results)
  obtain name u where x: "x = (name, u)" by (cases x)
  from mirror_image_items [of w fs name u]
  have "i_name ` set (fst (mirror_image w fs name u)) \<subseteq> {name}" by auto
  moreover have "i_name ` set (fst (outfits_loop w (snd (snd (mirror_image w fs name u))) results))
      \<subseteq> fst ` set results"
    by (rule Cons)
  ultimately show ?case unfolding x outfits_loop_Cons by auto
qed

lemma outfits_loop_distinct:
  "distinct (map (\<lambda>x. lower (fst x)) results) \<Longrightarrow>
   distinct (map (\<lambda>it. lower (i_name it)) (fst (outfits_loop w fs results)))"
proof (induction results arbitrary: fs)
  case Nil
  show ?case by simp
next
  case (Cons x results)
  obtain name u where x: "x = (name, u)" by (cases x)
  let ?fs1 = "snd (snd (mirror_image w fs name u))"
  let ?rest = "fst (outfits_loop w ?fs1 results)"
  from Cons.prems x have d: "distinct (map (\<lambda>x. lower (fst x)) results)"
    and nin: "lower name \<notin> (\<lambda>x. lower (fst x)) ` set results" by auto
  have d': "distinct (map (\<lambda>it. lower (i_name it)) ?rest)" using d by (rule Cons.IH)
  have sub: "i_name ` set ?rest \<subseteq> fst ` set results" by (rule outfits_loop_names)
  have fresh: "lower name \<notin> (\<lambda>it. lower (i_name it)) ` set ?rest"
  proof
    assume "lower name \<in> (\<lambda>it. lower (i_name it)) ` set ?rest"
    then obtain it where it: "it \<in> set ?rest" and l: "lower name = lower (i_name it)" by auto
    from it sub have "i_name it \<in> fst ` set results" by blast
    then obtain y where "y \<in> set results" and "fst y = i_name it" by auto
    with l have "lower name \<in> (\<lambda>x. lower (fst x)) ` set results" by force
    with nin show False by simp
  qed
  from mirror_image_items [of w fs name u] show ?case
  proof
    assume "fst (mirror_image w fs name u) = []"
    with d' show ?thesis unfolding x outfits_loop_Cons by simp
  next
    assume "\<exists>it. fst (mirror_image w fs name u) = [it] \<and> i_name it = name"
    then obtain it where "fst (mirror_image w fs name u) = [it]" and "i_name it = name" by blast
    with d' fresh show ?thesis unfolding x outfits_loop_Cons by simp
  qed
qed

section \<open>The files of a TibiaWiki run\<close>

lemma grows_refl: "grows fs fs"
  by (simp add: grows_def)

lemma present_Some: "present fs q \<Longrightarrow> fs' q = fs q \<Longrightarrow> present fs' q"
  by (simp add: present_def)

lemma grows_trans: "grows a b \<Longrightarrow> grows b c \<Longrightarrow> grows a c"
  unfolding grows_def
proof (intro allI conjI impI)
  fix q
  assume ab: "\<forall>q. (present a q \<longrightarrow> b q = a q) \<and> (a q = Some [] \<longrightarrow> b q = Some [] \<or> present b q)"
    and bc: "\<forall>q. (present b q \<longrightarrow> c q = b q) \<and> (b q = Some [] \<longrightarrow> c q = Some [] \<or> present c q)"
  {
    assume p: "present a q"
    with ab have e: "b q = a q" by blast
    with p have "present b q" by (simp add: present_def)
    with bc e show "c q = a q" by simp
  }
  {
    assume a0: "a q = Some []"
    with ab have "b q = Some [] \<or> present b q" by blast
    then show "c q = Some [] \<or> present c q"
    proof
      assume "b q = Some []"
      with bc show ?thesis by blast
    next
      assume p: "present b q"
      with bc have "c q = b q" by blast
      with p have "present c q" by (simp add: present_def)
      then show ?thesis ..
    qed
  }
qed

lemma settled_mono:
  assumes "settled w fs F e" and "grows fs fs'" and "F \<subseteq> F'"
  shows "settled w fs' F' e"
proof -
  let ?p = "r_file (snd e)" and ?u = "resolved w (snd e)"
  from assms(1) consider (a) "present fs ?p" | (b) "?u = []"
    | (c) "(?u, ?p) \<in> F" "\<not> reaches w (?u, ?p)"
    | (d) "(?u, ?p) \<in> F" "body_of w ?u = []" "fs ?p = Some []"
    unfolding settled_def by blast
  then show ?thesis
  proof cases
    case a
    with assms(2) have "fs' ?p = fs ?p" by (simp add: grows_def)
    with a have "present fs' ?p" by (simp add: present_def)
    then show ?thesis by (simp add: settled_def)
  next
    case b
    then show ?thesis by (simp add: settled_def)
  next
    case c
    with assms(3) show ?thesis by (auto simp: settled_def)
  next
    case d
    from d(3) assms(2) have "fs' ?p = Some [] \<or> present fs' ?p" by (simp add: grows_def)
    with d assms(3) show ?thesis by (auto simp: settled_def)
  qed
qed

lemma download_unreached:
  "\<not> reaches w (u, p) \<Longrightarrow> download w fs u p = (fs, False)"
  by (auto simp: reaches_def download_def split: option.splits)

lemma download_reached:
  "reaches w (u, p) \<Longrightarrow> fst (download w fs u p) = fs(p \<mapsto> body_of w u)"
  by (auto simp: reaches_def download_def body_of_def split: option.splits)

lemma delivers_iff: "delivers w (u, p) \<longleftrightarrow> reaches w (u, p) \<and> body_of w u \<noteq> []"
  by (auto simp: delivers_def reaches_def body_of_def split: option.splits)

text \<open>The three cases of the loop body.\<close>

lemma mirror_step_present:
  "present (m_files m) (r_file row) \<Longrightarrow>
   mirror_step w m (name, row) src
   = m\<lparr>m_index := set_source_url name (case src of None \<Rightarrow> [] | Some u \<Rightarrow> u) (m_index m)\<rparr>"
  by (simp add: mirror_step_def Let_def)

lemma mirror_step_no_url:
  assumes "\<not> present (m_files m) (r_file (snd e))"
    and "(case src of None \<Rightarrow> [] | Some u \<Rightarrow> u) = []"
  shows "m_files (mirror_step w m e src) = m_files m"
    and "m_fetched (mirror_step w m e src) = m_fetched m"
    and "m_downloaded (mirror_step w m e src) = m_downloaded m"
  using assms by (cases e; simp add: mirror_step_def Let_def)+

lemma mirror_step_skip:
  assumes "present (m_files m) (r_file (snd e))"
  shows "m_files (mirror_step w m e src) = m_files m"
    and "m_fetched (mirror_step w m e src) = m_fetched m"
    and "m_downloaded (mirror_step w m e src) = m_downloaded m"
  using assms by (cases e; simp add: mirror_step_def Let_def)+

lemma mirror_step_download:
  assumes "\<not> present (m_files m) (r_file (snd e))"
    and "(case src of None \<Rightarrow> [] | Some u \<Rightarrow> u) = u" and "u \<noteq> []"
  shows "m_files (mirror_step w m e src) = fst (download w (m_files m) u (r_file (snd e)))"
    and "m_fetched (mirror_step w m e src) = m_fetched m @ [(u, r_file (snd e))]"
    and "m_downloaded (mirror_step w m e src) \<le> m_downloaded m + 1"
  using assms by (cases e; simp add: mirror_step_def Let_def split: prod.splits)+

lemma mirror_step_settles:
  assumes l: "mw_original_image_url w (r_source_wiki_file (snd e)) = Inr src"
  shows "grows (m_files m) (m_files (mirror_step w m e src))
    \<and> set (m_fetched m) \<subseteq> set (m_fetched (mirror_step w m e src))
    \<and> settled w (m_files (mirror_step w m e src)) (set (m_fetched (mirror_step w m e src))) e"
proof -
  let ?p = "r_file (snd e)" and ?u = "resolved w (snd e)"
  let ?m1 = "mirror_step w m e src"
  have u: "(case src of None \<Rightarrow> [] | Some u \<Rightarrow> u) = ?u"
    using resolved_of_lookup [OF l] by simp
  show ?thesis
  proof (cases "present (m_files m) ?p")
    case True
    from mirror_step_skip [OF True, of w src] True show ?thesis
      by (simp add: grows_refl settled_def)
  next
    case np: False
    show ?thesis
    proof (cases "?u = []")
      case True
      with u have "(case src of None \<Rightarrow> [] | Some u \<Rightarrow> u) = []" by simp
      from mirror_step_no_url [OF np this, of w] True show ?thesis
        by (simp add: grows_refl settled_def)
    next
      case ne: False
      note d = mirror_step_download [OF np u ne, of w]
      show ?thesis
      proof (cases "reaches w (?u, ?p)")
        case False
        then have "m_files ?m1 = m_files m" using d(1) by (simp add: download_unreached)
        with d(2) False show ?thesis by (auto simp: grows_refl settled_def)
      next
        case True
        then have f: "m_files ?m1 = (m_files m)(?p \<mapsto> body_of w ?u)"
          using d(1) by (simp add: download_reached)
        have g: "grows (m_files m) (m_files ?m1)"
          unfolding f grows_def using np by (auto simp: present_def)
        have s: "settled w (m_files ?m1) (set (m_fetched ?m1)) e"
        proof (cases "body_of w ?u = []")
          case True
          with f d(2) show ?thesis by (simp add: settled_def)
        next
          case False
          with f have "present (m_files ?m1) ?p" by (simp add: present_def)
          then show ?thesis by (simp add: settled_def)
        qed
        from g s d(2) show ?thesis by auto
      qed
    qed
  qed
qed

lemma mirror_rows_settles:
  "mirror_rows w m rows = Inr m' \<Longrightarrow>
   grows (m_files m) (m_files m') \<and> set (m_fetched m) \<subseteq> set (m_fetched m')
   \<and> (\<forall>e\<in>set rows. settled w (m_files m') (set (m_fetched m')) e)"
proof (induction rows arbitrary: m)
  case Nil
  then show ?case by (simp add: grows_refl)
next
  case (Cons e rows)
  then obtain src where l: "mw_original_image_url w (r_source_wiki_file (snd e)) = Inr src"
    by (cases "mw_original_image_url w (r_source_wiki_file (snd e))") auto
  let ?m1 = "mirror_step w m e src"
  from Cons.prems l have r: "mirror_rows w ?m1 rows = Inr m'" by simp
  note s1 = mirror_step_settles [OF l, of m]
  note s2 = Cons.IH [OF r]
  from s1 s2 have g: "grows (m_files m) (m_files m')" by (blast intro: grows_trans)
  from s1 s2 have f: "set (m_fetched m) \<subseteq> set (m_fetched m')" by blast
  from s1 s2 have "settled w (m_files m') (set (m_fetched m')) e"
    by (blast intro: settled_mono)
  with g f s2 show ?case by simp
qed

lemma mirror_step_settled:
  assumes l: "mw_original_image_url w (r_source_wiki_file (snd e)) = Inr src"
    and s: "settled w (m_files m) F e"
  shows "m_files (mirror_step w m e src) = m_files m
    \<and> (\<exists>new. m_fetched (mirror_step w m e src) = m_fetched m @ new \<and> set new \<subseteq> F
          \<and> (\<forall>c\<in>set new. \<not> delivers w c)
          \<and> m_downloaded (mirror_step w m e src) \<le> m_downloaded m + length new)"
proof -
  let ?p = "r_file (snd e)" and ?u = "resolved w (snd e)"
  let ?m1 = "mirror_step w m e src"
  have u: "(case src of None \<Rightarrow> [] | Some u \<Rightarrow> u) = ?u"
    using resolved_of_lookup [OF l] by simp
  show ?thesis
  proof (cases "present (m_files m) ?p")
    case True
    from mirror_step_skip [OF True, of w src] show ?thesis by simp
  next
    case np: False
    show ?thesis
    proof (cases "?u = []")
      case True
      with u have "(case src of None \<Rightarrow> [] | Some u \<Rightarrow> u) = []" by simp
      from mirror_step_no_url [OF np this, of w] show ?thesis by simp
    next
      case ne: False
      note d = mirror_step_download [OF np u ne, of w]
      from s np ne have inF: "(?u, ?p) \<in> F"
        and c: "\<not> reaches w (?u, ?p) \<or> (body_of w ?u = [] \<and> m_files m ?p = Some [])"
        by (auto simp: settled_def)
      from c have nd: "\<not> delivers w (?u, ?p)" by (auto simp: delivers_iff)
      have f: "m_files ?m1 = m_files m"
      proof (cases "reaches w (?u, ?p)")
        case False
        then show ?thesis using d(1) by (simp add: download_unreached)
      next
        case True
        with c have b: "body_of w ?u = []" and e0: "m_files m ?p = Some []" by blast+
        from True have "m_files ?m1 = (m_files m)(?p \<mapsto> body_of w ?u)"
          using d(1) by (simp add: download_reached)
        with b e0 show ?thesis by (simp add: fun_upd_idem)
      qed
      have "m_fetched ?m1 = m_fetched m @ [(?u, ?p)] \<and> set [(?u, ?p)] \<subseteq> F
          \<and> (\<forall>c\<in>set [(?u, ?p)]. \<not> delivers w c)
          \<and> m_downloaded ?m1 \<le> m_downloaded m + length [(?u, ?p)]"
        using d(2,3) inF nd by simp
      then have "\<exists>new. m_fetched ?m1 = m_fetched m @ new \<and> set new \<subseteq> F
          \<and> (\<forall>c\<in>set new. \<not> delivers w c)
          \<and> m_downloaded ?m1 \<le> m_downloaded m + length new"
        by (rule exI)
      with f show ?thesis by simp
    qed
  qed
qed

lemma mirror_rows_settled:
  "\<forall>e\<in>set rows. settled w (m_files m) F e \<Longrightarrow> mirror_rows w m rows = Inr m' \<Longrightarrow>
   m_files m' = m_files m
   \<and> (\<exists>new. m_fetched m' = m_fetched m @ new \<and> set new \<subseteq> F
         \<and> (\<forall>c\<in>set new. \<not> delivers w c)
         \<and> m_downloaded m' \<le> m_downloaded m + length new)"
proof (induction rows arbitrary: m)
  case Nil
  then show ?case by simp
next
  case (Cons e rows)
  then obtain src where l: "mw_original_image_url w (r_source_wiki_file (snd e)) = Inr src"
    by (cases "mw_original_image_url w (r_source_wiki_file (snd e))") auto
  let ?m1 = "mirror_step w m e src"
  from Cons.prems l have r: "mirror_rows w ?m1 rows = Inr m'" by simp
  from Cons.prems(1) have se: "settled w (m_files m) F e" by simp
  from mirror_step_settled [OF l se]
  obtain new1 where f1: "m_files ?m1 = m_files m"
    and n1: "m_fetched ?m1 = m_fetched m @ new1" "set new1 \<subseteq> F"
      "\<forall>c\<in>set new1. \<not> delivers w c" "m_downloaded ?m1 \<le> m_downloaded m + length new1"
    by blast
  from Cons.prems(1) f1 have "\<forall>e\<in>set rows. settled w (m_files ?m1) F e" by simp
  from Cons.IH [OF this r]
  obtain new2 where f2: "m_files m' = m_files ?m1"
    and n2: "m_fetched m' = m_fetched ?m1 @ new2" "set new2 \<subseteq> F"
      "\<forall>c\<in>set new2. \<not> delivers w c" "m_downloaded m' \<le> m_downloaded ?m1 + length new2"
    by blast
  have "m_fetched m' = m_fetched m @ (new1 @ new2) \<and> set (new1 @ new2) \<subseteq> F
      \<and> (\<forall>c\<in>set (new1 @ new2). \<not> delivers w c)
      \<and> m_downloaded m' \<le> m_downloaded m + length (new1 @ new2)"
    using n1 n2 by auto
  then have "\<exists>new. m_fetched m' = m_fetched m @ new \<and> set new \<subseteq> F
      \<and> (\<forall>c\<in>set new. \<not> delivers w c)
      \<and> m_downloaded m' \<le> m_downloaded m + length new"
    by (rule exI)
  with f1 f2 show ?case by simp
qed

lemma run_group_twice:
  assumes r1: "run_group w fs urls = Inr m1"
  shows "\<exists>m2. run_group w (m_files m1) urls = Inr m2
      \<and> m_index m2 = m_index m1 \<and> m_files m2 = m_files m1
      \<and> set (m_fetched m2) \<subseteq> set (m_fetched m1)
      \<and> (\<forall>c\<in>set (m_fetched m2). \<not> delivers w c)
      \<and> m_downloaded m2 \<le> length (m_fetched m2)"
proof -
  from r1 have "\<exists>m. run_group w fs urls = Inr m" by blast
  then have "\<exists>m. run_group w (m_files m1) urls = Inr m"
    by (simp only: run_group_ok)
  then obtain m2 where r2: "run_group w (m_files m1) urls = Inr m2" by blast
  have i: "m_index m2 = m_index m1"
    using run_group_index [OF r1] run_group_index [OF r2] by simp
  from r1 obtain index where fp: "fetch_pages w [] urls = Inr index"
    by (cases "fetch_pages w [] urls") (auto simp: run_group_def)
  let ?rows = "sort_key (\<lambda>(name, row). lower name) index"
  let ?a = "\<lparr>m_index = index, m_files = fs, m_fetched = [], m_downloaded = 0, m_skipped = 0\<rparr>"
  let ?b = "\<lparr>m_index = index, m_files = m_files m1, m_fetched = [], m_downloaded = 0,
             m_skipped = 0\<rparr>"
  from r1 fp have a: "mirror_rows w ?a ?rows = Inr m1" by (simp add: run_group_def)
  from r2 fp have b: "mirror_rows w ?b ?rows = Inr m2" by (simp add: run_group_def)
  from mirror_rows_settles [OF a]
  have "\<forall>e\<in>set ?rows. settled w (m_files ?b) (set (m_fetched m1)) e" by simp
  from mirror_rows_settled [OF this b]
  obtain new where "m_files m2 = m_files m1" and "m_fetched m2 = new"
    and "set new \<subseteq> set (m_fetched m1)" and "\<forall>c\<in>set new. \<not> delivers w c"
    and "m_downloaded m2 \<le> length new"
    by auto
  with r2 i show ?thesis by blast
qed

section \<open>The final index\<close>

lemma index_entry:
  assumes "(k, r) \<in> set (add_pairs [] pairs)"
  shows "\<exists>f. map_of pairs k = Some (r_source_wiki_file r)
       \<and> build_fandom_gif_file k = Some f \<and> r = new_row k f (r_source_wiki_file r)"
proof -
  have "distinct (map fst (add_pairs [] pairs))" using add_pairs_distinct [of "[]"] by simp
  with assms have "map_of (add_pairs [] pairs) k = Some r" by simp
  then have "(case map_of pairs k of
             None \<Rightarrow> None
           | Some wiki \<Rightarrow> map_option (\<lambda>f. new_row k f wiki) (build_fandom_gif_file k)) = Some r"
    by (simp add: add_pairs_map_of)
  then obtain wiki f where "map_of pairs k = Some wiki" "build_fandom_gif_file k = Some f"
    "r = new_row k f wiki"
    by (auto split: option.splits)
  then show ?thesis by (simp add: new_row_def)
qed

lemma index_has_name:
  assumes "(name, wiki) \<in> set pairs" and "name \<noteq> []"
  shows "name \<in> fst ` set (add_pairs [] pairs)"
proof -
  from assms(1) obtain wiki' where w: "map_of pairs name = Some wiki'"
    by (cases "map_of pairs name") (force simp: map_of_eq_None_iff)+
  from assms(2) obtain f where f: "build_fandom_gif_file name = Some f"
    by (simp add: build_titled)
  from w f have "map_of (add_pairs [] pairs) name = Some (new_row name f wiki')"
    by (simp add: add_pairs_map_of)
  then have "(name, new_row name f wiki') \<in> set (add_pairs [] pairs)" by (rule map_of_SomeD)
  then show ?thesis by force
qed

lemma index_json_rows:
  assumes "run_group w fs page_urls = Inr m"
  shows "index_json m = map (\<lambda>(k, r). r\<lparr>r_source_url := resolved w r\<rparr>)
                          (add_pairs [] (all_pairs w page_urls))"
  using run_group_index [OF assms]
  by (simp add: index_json_def fill_urls_def case_prod_unfold comp_def)

lemma index_json_names:
  assumes "run_group w fs page_urls = Inr m"
  shows "map r_name (index_json m) = map fst (add_pairs [] (all_pairs w page_urls))"
proof -
  have "map r_name (index_json m)
      = map (\<lambda>e. r_name (snd e)) (add_pairs [] (all_pairs w page_urls))"
    by (simp add: index_json_rows [OF assms] case_prod_unfold comp_def)
  also have "\<dots> = map fst (add_pairs [] (all_pairs w page_urls))"
  proof (rule map_cong [OF refl])
    fix e assume "e \<in> set (add_pairs [] (all_pairs w page_urls))"
    then have "(fst e, snd e) \<in> set (add_pairs [] (all_pairs w page_urls))" by simp
    from index_entry [OF this] show "r_name (snd e) = fst e"
      by (metis new_row_def row.select_convs(1))
  qed
  finally show ?thesis .
qed

text \<open>
  C3, as the code has it. In a TibiaWiki run that comes to its end, the final index
  holds every row of the dictionary, in the order of insertion, with the address that
  the lookup returned, and empty when it returned none: a row whose lookup comes back
  without an address (access denied, or no image info under either namespace) is in
  the index with an empty source address. Such a lookup does not end the run: the run
  comes to its end exactly when every page is fetched and every lookup returns. In the
  mounts run, a title whose page gives no image address adds no item and changes no
  file: the entity is left out of the index.
\<close>

theorem unresolved_rows_are_indexed:
  "(run_group w fs page_urls = Inr m \<longrightarrow>
      index_json m = map (\<lambda>(k, r). r\<lparr>r_source_url := resolved w r\<rparr>)
                       (add_pairs [] (all_pairs w page_urls))
      \<and> (\<forall>(k, r)\<in>set (add_pairs [] (all_pairs w page_urls)).
            mw_original_image_url w (r_source_wiki_file r) = Inr None
            \<longrightarrow> r\<lparr>r_source_url := []\<rparr> \<in> set (index_json m)))
   \<and> ((\<exists>m. run_group w fs page_urls = Inr m)
        \<longleftrightarrow> (\<forall>url\<in>set page_urls. \<exists>h. fetch_html w url = Inr h)
            \<and> (\<forall>e\<in>set (add_pairs [] (all_pairs w page_urls)).
                  \<exists>s. mw_original_image_url w (r_source_wiki_file (snd e)) = Inr s))
   \<and> ((\<forall>html. api_parse_html w title = Inr html \<longrightarrow> choose_best_image_from_page w html = None)
        \<longrightarrow> mounts_title w files title = ([], [], files))"
proof (intro conjI impI)
  assume r: "run_group w fs page_urls = Inr m"
  let ?idx = "add_pairs [] (all_pairs w page_urls)"
  have i: "m_index m = fill_urls w ?idx" using r by (rule run_group_index)
  then show j: "index_json m = map (\<lambda>(k, r). r\<lparr>r_source_url := resolved w r\<rparr>) ?idx"
    by (simp add: index_json_def fill_urls_def case_prod_unfold comp_def)
  show "\<forall>(k, r)\<in>set ?idx. mw_original_image_url w (r_source_wiki_file r) = Inr None
            \<longrightarrow> r\<lparr>r_source_url := []\<rparr> \<in> set (index_json m)"
  proof (clarify)
    fix k r assume kr: "(k, r) \<in> set ?idx"
      and n: "mw_original_image_url w (r_source_wiki_file r) = Inr None"
    from n have "resolved w r = []" by (simp add: resolved_def)
    with kr show "r\<lparr>r_source_url := []\<rparr> \<in> set (index_json m)"
      unfolding j by force
  qed
next
  show "(\<exists>m. run_group w fs page_urls = Inr m)
        \<longleftrightarrow> (\<forall>url\<in>set page_urls. \<exists>h. fetch_html w url = Inr h)
            \<and> (\<forall>e\<in>set (add_pairs [] (all_pairs w page_urls)).
                  \<exists>s. mw_original_image_url w (r_source_wiki_file (snd e)) = Inr s)"
    by (rule run_group_ok)
next
  assume "\<forall>html. api_parse_html w title = Inr html \<longrightarrow> choose_best_image_from_page w html = None"
  then show "mounts_title w files title = ([], [], files)"
    by (auto simp: mounts_title_def split: sum.splits option.splits)
qed

theorem unresolved_rows_are_indexed_witness:
  "\<exists>m. run_group example_world Map.empty [''https://www.tibiawiki.com.br/wiki/Bosses''] = Inr m
     \<and> mw_original_image_url example_world ''Orshabaal.gif'' = Inr None
     \<and> \<lparr>r_name = ''Orshabaal'', r_file = ''Orshabaal.gif'',
         r_source_wiki_file = ''Orshabaal.gif'', r_source_url = []\<rparr> \<in> set (index_json m)"
proof -
  let ?U = "[''https://www.tibiawiki.com.br/wiki/Bosses'']"
  let ?r = "\<lparr>r_name = ''Orshabaal'', r_file = ''Orshabaal.gif'',
         r_source_wiki_file = ''Orshabaal.gif'', r_source_url = []\<rparr>"
  have "case run_group example_world Map.empty ?U of Inl e \<Rightarrow> False | Inr m \<Rightarrow> True"
    by code_simp
  then obtain m where r: "run_group example_world Map.empty ?U = Inr m"
    by (cases "run_group example_world Map.empty ?U") auto
  have i: "(''Orshabaal'', ?r) \<in> set (add_pairs [] (all_pairs example_world ?U))"
    by code_simp
  have l: "mw_original_image_url example_world ''Orshabaal.gif'' = Inr None" by code_simp
  note t = unresolved_rows_are_indexed [of example_world Map.empty ?U m, THEN conjunct1,
      rule_format, OF r, THEN conjunct2]
  from t i l have "?r\<lparr>r_source_url := []\<rparr> \<in> set (index_json m)" by fastforce
  then have e: "?r \<in> set (index_json m)" by simp
  show ?thesis by (rule exI [of _ m]) (intro conjI r l e)
qed

text \<open>
  The claim as the specification states it fails for the mounts: the page of the Racing
  Bird is fetched and has no image, so every strategy of the chain has failed, and the
  index has the War Bear only; the Racing Bird is omitted, not indexed with an empty
  address.
\<close>

theorem unresolved_rows_counterexample:
  "api_parse_html example_fandom ''Racing Bird'' = Inr ''<p>racing bird</p>''
   \<and> choose_best_image_from_page example_fandom ''<p>racing bird</p>'' = None
   \<and> map i_name (fst (mounts_loop example_fandom Map.empty [''Racing Bird'', ''War Bear'']))
       = [''War Bear'']"
  by code_simp







end
